theory Spec2Isabelle
  imports Main "HOL-Library.Word"
begin

section \<open>Strings of the script\<close>

text \<open>
  A JavaScript string is a sequence of 16-bit code units. The literals of
  \<^verbatim>\<open>script.js\<close> are all ASCII, so a literal is written \<open>js ''...''\<close>: each
  character becomes the code unit of the same number.
\<close>

type_synonym jsstring = "16 word list"

definition js :: "string \<Rightarrow> jsstring" where
  "js s = map of_char s"

section \<open>The history store\<close>

subsection \<open>\<^verbatim>\<open>JSON.stringify\<close> of an array of strings\<close>

text \<open>
  \<^verbatim>\<open>JSON.stringify\<close> quotes a string as ECMAScript's QuoteJSONString does: the
  seven two-character escapes, \<^verbatim>\<open>\uXXXX\<close> (lower-case hexadecimal) for every other
  code unit below U+0020 and for a surrogate that is not part of a pair, and every
  other code unit as it is.
\<close>

definition hex_digit :: "nat \<Rightarrow> 16 word" where
  "hex_digit n = (if n < 10 then 0x30 + of_nat n else 0x57 + of_nat n)"

definition unicode_escape :: "16 word \<Rightarrow> jsstring" where
  "unicode_escape c =
     [0x5C, 0x75, hex_digit (unat c div 4096), hex_digit (unat c div 256 mod 16),
      hex_digit (unat c div 16 mod 16), hex_digit (unat c mod 16)]"

definition is_lead_surrogate :: "16 word \<Rightarrow> bool" where
  "is_lead_surrogate c = (0xD800 \<le> c \<and> c \<le> 0xDBFF)"

definition is_trail_surrogate :: "16 word \<Rightarrow> bool" where
  "is_trail_surrogate c = (0xDC00 \<le> c \<and> c \<le> 0xDFFF)"

definition quote_unit :: "16 word \<Rightarrow> jsstring" where
  "quote_unit c =
     (if c = 0x08 then [0x5C, 0x62]
      else if c = 0x09 then [0x5C, 0x74]
      else if c = 0x0A then [0x5C, 0x6E]
      else if c = 0x0C then [0x5C, 0x66]
      else if c = 0x0D then [0x5C, 0x72]
      else if c = 0x22 then [0x5C, 0x22]
      else if c = 0x5C then [0x5C, 0x5C]
      else if c < 0x20 \<or> is_lead_surrogate c \<or> is_trail_surrogate c then unicode_escape c
      else [c])"

fun quote_units :: "jsstring \<Rightarrow> jsstring" where
  "quote_units [] = []"
| "quote_units (c # cs) =
     (if is_lead_surrogate c then
        (case cs of
           [] \<Rightarrow> unicode_escape c
         | d # ds \<Rightarrow>
             if is_trail_surrogate d then c # d # quote_units ds
             else unicode_escape c @ quote_units cs)
      else quote_unit c @ quote_units cs)"

definition QuoteJSONString :: "jsstring \<Rightarrow> jsstring" where
  "QuoteJSONString s = 0x22 # quote_units s @ [0x22]"

fun join_comma :: "jsstring list \<Rightarrow> jsstring" where
  "join_comma [] = []"
| "join_comma [x] = x"
| "join_comma (x # y # ys) = x @ 0x2C # join_comma (y # ys)"

definition JSON_stringify :: "jsstring list \<Rightarrow> jsstring" where
  "JSON_stringify xs = 0x5B # join_comma (map QuoteJSONString xs) @ [0x5D]"

subsection \<open>The page\<close>

text \<open>
  What the script renders is kept as data: the region \<^verbatim>\<open>result-section\<close> shows one
  view, whose fields are the values the script interpolates into its markup, and
  the region \<^verbatim>\<open>history-list\<close> shows either the note that there are no recent
  searches or one tag per word.
\<close>

datatype jsprop = Undefined | Str jsstring | Inherited jsstring

record result_view =
  title :: "jsstring"
  phoneticText :: "jsstring"
  audioUrl :: "jsstring option"
  posIcon :: "jsprop"
  posText :: "jsstring"
  definitionText :: "jsstring"
  exampleClass :: "jsstring"
  exampleText :: "jsstring"

datatype view = Welcome | Loading | Result result_view | Error jsstring

datatype history_view = NoHistory | HistoryItems "jsstring list"

datatype js_error = Thrown jsstring | TypeError | SyntaxError

text \<open>
  The state of the page: the text of the input field, the two regions, the history
  in memory, the storage of the origin, and two logs, of the addresses requested and
  of the errors written to the console. The history in memory is the array of words
  the script keeps; \<open>app0\<close> is the page before any search, with nothing stored.
\<close>

record app =
  wordInput :: "jsstring"
  resultSection :: "view"
  historyList :: "history_view"
  searchHistory :: "jsstring list"
  localStorage :: "jsstring \<rightharpoonup> jsstring"
  requests :: "jsstring list"
  console :: "js_error list"

definition history_key :: "jsstring" where
  "history_key = js ''dictionaryHistory''"

definition app0 :: "app" where
  "app0 = \<lparr>wordInput = [], resultSection = Welcome, historyList = NoHistory,
           searchHistory = [], localStorage = Map.empty, requests = [], console = []\<rparr>"

definition displaySearchHistory :: "app \<Rightarrow> app" where
  "displaySearchHistory s =
     (if length (searchHistory s) = 0 then s\<lparr>historyList := NoHistory\<rparr>
      else s\<lparr>historyList := HistoryItems (searchHistory s)\<rparr>)"

text \<open>
  \<^verbatim>\<open>localStorage.setItem('dictionaryHistory', JSON.stringify(searchHistory))\<close>; the
  storage is taken to accept the value.
\<close>

definition persist :: "app \<Rightarrow> app" where
  "persist s =
     s\<lparr>localStorage := (localStorage s)(history_key \<mapsto> JSON_stringify (searchHistory s))\<rparr>"

definition addToSearchHistory :: "jsstring \<Rightarrow> app \<Rightarrow> app" where
  "addToSearchHistory word s =
     (let filtered = filter (\<lambda>item. item \<noteq> word) (searchHistory s);
          unshifted = word # filtered;
          kept = (if length unshifted > 5 then butlast unshifted else unshifted)
      in displaySearchHistory (persist (s\<lparr>searchHistory := kept\<rparr>)))"

subsection \<open>\<^verbatim>\<open>JSON.parse\<close>\<close>

text \<open>
  The values \<^verbatim>\<open>JSON.parse\<close> can return. \<open>JNum m e\<close> is the Number nearest to
  \<open>m * 10 ^ e\<close>, the value the literal denotes; an object is the list of its
  properties, one for each key, with the value of the last member of that key. The
  list is in the order of the text; the order in which the engine enumerates the
  properties is not part of the model.
\<close>

datatype jsval =
    JNull
  | JBool bool
  | JNum int int
  | JStr jsstring
  | JArr "jsval list"
  | JObj "(jsstring \<times> jsval) list"

text \<open>
  A Number is falsy when it is zero. The literal's value rounds to zero when it is
  zero or at most \<open>2 ^ -1075\<close>, half of the least positive Number, in magnitude.
\<close>

definition rounds_to_zero :: "int \<Rightarrow> int \<Rightarrow> bool" where
  "rounds_to_zero m e = (m = 0 \<or> (e < 0 \<and> \<bar>m\<bar> * 2 ^ 1075 \<le> 10 ^ nat (- e)))"

fun truthy :: "jsval \<Rightarrow> bool" where
  "truthy JNull = False"
| "truthy (JBool b) = b"
| "truthy (JNum m e) = (\<not> rounds_to_zero m e)"
| "truthy (JStr s) = (s \<noteq> [])"
| "truthy (JArr xs) = True"
| "truthy (JObj ms) = True"

datatype 'a parsed = OutOfFuel | Reject | Accept 'a jsstring

fun map_parsed :: "('a \<Rightarrow> 'b) \<Rightarrow> 'a parsed \<Rightarrow> 'b parsed" where
  "map_parsed f OutOfFuel = OutOfFuel"
| "map_parsed f Reject = Reject"
| "map_parsed f (Accept x r) = Accept (f x) r"

definition is_json_ws :: "16 word \<Rightarrow> bool" where
  "is_json_ws c = (c = 0x09 \<or> c = 0x0A \<or> c = 0x0D \<or> c = 0x20)"

definition skip_ws :: "jsstring \<Rightarrow> jsstring" where
  "skip_ws cs = dropWhile is_json_ws cs"

definition is_digit :: "16 word \<Rightarrow> bool" where
  "is_digit c = (0x30 \<le> c \<and> c \<le> 0x39)"

definition hex_value :: "16 word \<Rightarrow> nat option" where
  "hex_value c =
     (if 0x30 \<le> c \<and> c \<le> 0x39 then Some (unat c - 0x30)
      else if 0x61 \<le> c \<and> c \<le> 0x66 then Some (unat c - 0x57)
      else if 0x41 \<le> c \<and> c \<le> 0x46 then Some (unat c - 0x37)
      else None)"

definition hex4 :: "16 word \<Rightarrow> 16 word \<Rightarrow> 16 word \<Rightarrow> 16 word \<Rightarrow> 16 word option" where
  "hex4 a b c d =
     (case (hex_value a, hex_value b, hex_value c, hex_value d) of
        (Some x, Some y, Some z, Some w) \<Rightarrow> Some (of_nat (((x * 16 + y) * 16 + z) * 16 + w))
      | _ \<Rightarrow> None)"

definition unescape :: "16 word \<Rightarrow> 16 word option" where
  "unescape e =
     (if e = 0x22 then Some 0x22
      else if e = 0x5C then Some 0x5C
      else if e = 0x2F then Some 0x2F
      else if e = 0x62 then Some 0x08
      else if e = 0x66 then Some 0x0C
      else if e = 0x6E then Some 0x0A
      else if e = 0x72 then Some 0x0D
      else if e = 0x74 then Some 0x09
      else None)"

text \<open>
  A member read before the members \<open>ms\<close> that follow it in the text: when a later
  member has the same key, the property keeps its place and takes the later value.
\<close>

definition add_member :: "jsstring \<Rightarrow> 'v \<Rightarrow> (jsstring \<times> 'v) list \<Rightarrow> (jsstring \<times> 'v) list" where
  "add_member k v ms =
     (case map_of ms k of
        None \<Rightarrow> (k, v) # ms
      | Some later \<Rightarrow> (k, later) # filter (\<lambda>m. fst m \<noteq> k) ms)"

definition cons_unit :: "16 word \<Rightarrow> (jsstring \<times> jsstring) option \<Rightarrow> (jsstring \<times> jsstring) option" where
  "cons_unit u p = (case p of None \<Rightarrow> None | Some (s, r) \<Rightarrow> Some (u # s, r))"

text \<open>The characters of a string literal, after its opening quote, up to its closing quote.\<close>

fun parse_chars :: "jsstring \<Rightarrow> (jsstring \<times> jsstring) option" where
  "parse_chars [] = None"
| "parse_chars (c # cs) =
     (if c = 0x22 then Some ([], cs)
      else if c = 0x5C then
        (case cs of
           [] \<Rightarrow> None
         | e # es \<Rightarrow>
             if e = 0x75 then
               (case es of
                  h1 # h2 # h3 # h4 # rest \<Rightarrow>
                    (case hex4 h1 h2 h3 h4 of
                       None \<Rightarrow> None
                     | Some u \<Rightarrow> cons_unit u (parse_chars rest))
                | _ \<Rightarrow> None)
             else
               (case unescape e of
                  None \<Rightarrow> None
                | Some u \<Rightarrow> cons_unit u (parse_chars es)))
      else if c < 0x20 then None
      else cons_unit c (parse_chars cs))"

definition digits_value :: "jsstring \<Rightarrow> nat" where
  "digits_value ds = foldl (\<lambda>a d. 10 * a + (unat d - 0x30)) 0 ds"

definition parse_fraction :: "jsstring \<Rightarrow> (jsstring \<times> jsstring) option" where
  "parse_fraction cs =
     (case cs of
        [] \<Rightarrow> Some ([], cs)
      | c # r \<Rightarrow>
          if c = 0x2E then
            (if takeWhile is_digit r = [] then None
             else Some (takeWhile is_digit r, dropWhile is_digit r))
          else Some ([], cs))"

definition parse_sign :: "jsstring \<Rightarrow> int \<times> jsstring" where
  "parse_sign cs =
     (case cs of
        [] \<Rightarrow> (1, cs)
      | c # r \<Rightarrow> if c = 0x2B then (1, r) else if c = 0x2D then (- 1, r) else (1, cs))"

definition parse_exponent :: "jsstring \<Rightarrow> (int \<times> jsstring) option" where
  "parse_exponent cs =
     (case cs of
        [] \<Rightarrow> Some (0, cs)
      | c # r \<Rightarrow>
          if c = 0x65 \<or> c = 0x45 then
            (case parse_sign r of
               (sg, r') \<Rightarrow>
                 if takeWhile is_digit r' = [] then None
                 else Some (sg * int (digits_value (takeWhile is_digit r')), dropWhile is_digit r'))
          else Some (0, cs))"

text \<open>
  A number literal: an optional minus sign, an integer part with no leading zero, an
  optional fraction and an optional exponent. Digits after a leading zero can only
  be followed by a syntax error, so the literal is rejected there.
\<close>

definition parse_number :: "jsstring \<Rightarrow> (jsval \<times> jsstring) option" where
  "parse_number cs =
     (case (case cs of [] \<Rightarrow> (1, cs) | c # r \<Rightarrow> if c = 0x2D then (- 1, r) else (1, cs)) of
        (sg, cs1) \<Rightarrow>
          let ip = takeWhile is_digit cs1 in
          if ip = [] \<or> (length ip > 1 \<and> hd ip = 0x30) then None
          else
            (case parse_fraction (dropWhile is_digit cs1) of
               None \<Rightarrow> None
             | Some (fp, cs3) \<Rightarrow>
                 (case parse_exponent cs3 of
                    None \<Rightarrow> None
                  | Some (ex, cs4) \<Rightarrow>
                      Some (JNum (sg * int (digits_value (ip @ fp))) (ex - int (length fp)), cs4))))"

text \<open>
  The value grammar, by recursive descent. The first argument bounds the number of
  nested calls; \<open>JSON_parse\<close> gives it more than any text of that length needs.
\<close>

fun parse_value :: "nat \<Rightarrow> jsstring \<Rightarrow> jsval parsed"
  and parse_elements :: "nat \<Rightarrow> jsstring \<Rightarrow> (jsval list) parsed"
  and parse_members :: "nat \<Rightarrow> jsstring \<Rightarrow> ((jsstring \<times> jsval) list) parsed"
where
  "parse_value 0 cs = OutOfFuel"
| "parse_value (Suc n) cs =
     (case cs of
        [] \<Rightarrow> Reject
      | c # r \<Rightarrow>
          if c = 0x22 then
            (case parse_chars r of None \<Rightarrow> Reject | Some (s, r') \<Rightarrow> Accept (JStr s) r')
          else if c = 0x5B then
            (case skip_ws r of
               [] \<Rightarrow> Reject
             | d # r' \<Rightarrow>
                 if d = 0x5D then Accept (JArr []) r'
                 else map_parsed JArr (parse_elements n r))
          else if c = 0x7B then
            (case skip_ws r of
               [] \<Rightarrow> Reject
             | d # r' \<Rightarrow>
                 if d = 0x7D then Accept (JObj []) r'
                 else map_parsed JObj (parse_members n r))
          else if take 4 cs = js ''true'' then Accept (JBool True) (drop 4 cs)
          else if take 5 cs = js ''false'' then Accept (JBool False) (drop 5 cs)
          else if take 4 cs = js ''null'' then Accept JNull (drop 4 cs)
          else if c = 0x2D \<or> is_digit c then
            (case parse_number cs of None \<Rightarrow> Reject | Some (v, r') \<Rightarrow> Accept v r')
          else Reject)"
| "parse_elements 0 cs = OutOfFuel"
| "parse_elements (Suc n) cs =
     (case parse_value n (skip_ws cs) of
        OutOfFuel \<Rightarrow> OutOfFuel
      | Reject \<Rightarrow> Reject
      | Accept v r \<Rightarrow>
          (case skip_ws r of
             [] \<Rightarrow> Reject
           | d # r' \<Rightarrow>
               if d = 0x2C then map_parsed (\<lambda>vs. v # vs) (parse_elements n r')
               else if d = 0x5D then Accept [v] r'
               else Reject))"
| "parse_members 0 cs = OutOfFuel"
| "parse_members (Suc n) cs =
     (case skip_ws cs of
        [] \<Rightarrow> Reject
      | q # r \<Rightarrow>
          if q = 0x22 then
            (case parse_chars r of
               None \<Rightarrow> Reject
             | Some (k, r1) \<Rightarrow>
                 (case skip_ws r1 of
                    [] \<Rightarrow> Reject
                  | colon # r2 \<Rightarrow>
                      if colon = 0x3A then
                        (case parse_value n (skip_ws r2) of
                           OutOfFuel \<Rightarrow> OutOfFuel
                         | Reject \<Rightarrow> Reject
                         | Accept v r3 \<Rightarrow>
                             (case skip_ws r3 of
                                [] \<Rightarrow> Reject
                              | d # r4 \<Rightarrow>
                                  if d = 0x2C then map_parsed (add_member k v) (parse_members n r4)
                                  else if d = 0x7D then Accept [(k, v)] r4
                                  else Reject))
                      else Reject))
          else Reject)"

definition JSON_parse :: "jsstring \<Rightarrow> js_error + jsval" where
  "JSON_parse text =
     (case parse_value (2 * length text + 2) (skip_ws text) of
        Accept v r \<Rightarrow> if skip_ws r = [] then Inr v else Inl SyntaxError
      | _ \<Rightarrow> Inl SyntaxError)"

subsection \<open>Loading the history\<close>

text \<open>
  \<^verbatim>\<open>JSON.parse(localStorage.getItem('dictionaryHistory')) || []\<close>: \<^verbatim>\<open>getItem\<close> gives
  \<^verbatim>\<open>null\<close> for a key that is not stored, and \<^verbatim>\<open>JSON.parse\<close> reads its argument as
  a string, so it parses the text \<^verbatim>\<open>null\<close> then.
\<close>

definition load :: "(jsstring \<rightharpoonup> jsstring) \<Rightarrow> js_error + jsval" where
  "load storage =
     (case JSON_parse (case storage history_key of None \<Rightarrow> js ''null'' | Some text \<Rightarrow> text) of
        Inl e \<Rightarrow> Inl e
      | Inr v \<Rightarrow> Inr (if truthy v then v else JArr []))"

definition initApp :: "app \<Rightarrow> app" where
  "initApp s = displaySearchHistory s"

section \<open>The result renderer\<close>

text \<open>
  The two case conversions of the engine follow Unicode's tables, which are not
  part of the script: they are parameters of the model.
\<close>

record engine =
  toLowerCase :: "jsstring \<Rightarrow> jsstring"
  toUpperCase :: "jsstring \<Rightarrow> jsstring"

text \<open>
  An entry of the dictionary's answer. A property the answer may leave out is an
  option: \<open>None\<close> is \<^verbatim>\<open>undefined\<close>. The property \<^verbatim>\<open>word\<close> is the field
  \<open>entry_word\<close> and the property \<^verbatim>\<open>definition\<close> is the field \<open>definition_text\<close>.
\<close>

record definition_item =
  definition_text :: "jsstring option"
  example :: "jsstring option"

record meaning =
  partOfSpeech :: "jsstring option"
  definitions :: "definition_item list option"

record phonetic_item =
  audio :: "jsstring option"

record entry =
  entry_word :: "jsstring option"
  phonetic :: "jsstring option"
  phonetics :: "phonetic_item list option"
  meanings :: "meaning list option"

text \<open>\<^verbatim>\<open>x || d\<close> for a string that may be missing: \<^verbatim>\<open>undefined\<close> and the empty string are falsy.\<close>

definition or_else :: "jsstring option \<Rightarrow> jsstring \<Rightarrow> jsstring" where
  "or_else x d = (case x of None \<Rightarrow> d | Some v \<Rightarrow> if v = [] then d else v)"

definition iconMap :: "(jsstring \<times> jsstring) list" where
  "iconMap =
     [(js ''noun'', js ''fas fa-landmark''),
      (js ''verb'', js ''fas fa-running''),
      (js ''adjective'', js ''fas fa-adjust''),
      (js ''adverb'', js ''fas fa-bolt''),
      (js ''pronoun'', js ''fas fa-user''),
      (js ''preposition'', js ''fas fa-arrows-alt''),
      (js ''conjunction'', js ''fas fa-link''),
      (js ''interjection'', js ''fas fa-exclamation'')]"

text \<open>
  \<^verbatim>\<open>iconMap\<close> is an object literal, so its prototype is \<^verbatim>\<open>Object.prototype\<close>, and
  \<^verbatim>\<open>iconMap[pos]\<close> finds the properties of the prototype too. They are functions,
  or for \<^verbatim>\<open>__proto__\<close> the prototype itself: all truthy.
\<close>

definition Object_prototype :: "jsstring list" where
  "Object_prototype =
     [js ''constructor'', js ''hasOwnProperty'', js ''isPrototypeOf'',
      js ''propertyIsEnumerable'', js ''toLocaleString'', js ''toString'', js ''valueOf'',
      js ''__proto__'', js ''__defineGetter__'', js ''__defineSetter__'',
      js ''__lookupGetter__'', js ''__lookupSetter__'']"

definition get_property :: "(jsstring \<times> jsstring) list \<Rightarrow> jsstring \<Rightarrow> jsprop" where
  "get_property obj k =
     (case map_of obj k of
        Some v \<Rightarrow> Str v
      | None \<Rightarrow> if k \<in> set Object_prototype then Inherited k else Undefined)"

fun truthy_prop :: "jsprop \<Rightarrow> bool" where
  "truthy_prop Undefined = False"
| "truthy_prop (Str v) = (v \<noteq> [])"
| "truthy_prop (Inherited k) = True"

definition getPartOfSpeechIcon :: "jsstring \<Rightarrow> jsprop" where
  "getPartOfSpeechIcon pos =
     (if truthy_prop (get_property iconMap pos) then get_property iconMap pos
      else Str (js ''fas fa-font''))"

definition first_audio :: "entry \<Rightarrow> jsstring option" where
  "first_audio wordData =
     (case phonetics wordData of
        None \<Rightarrow> None
      | Some ps \<Rightarrow>
          if length ps > 0 then
            (case find (\<lambda>p. or_else (audio p) [] \<noteq> []) ps of
               None \<Rightarrow> None
             | Some audioPhonetic \<Rightarrow> audio audioPhonetic)
          else None)"

text \<open>The first meaning and its first definition: part of speech, definition, example.\<close>

definition first_meaning :: "entry \<Rightarrow> jsstring \<times> jsstring \<times> jsstring" where
  "first_meaning wordData =
     (case meanings wordData of
        None \<Rightarrow> ([], [], [])
      | Some [] \<Rightarrow> ([], [], [])
      | Some (firstMeaning # _) \<Rightarrow>
          (case definitions firstMeaning of
             None \<Rightarrow> (or_else (partOfSpeech firstMeaning) [], [], [])
           | Some [] \<Rightarrow> (or_else (partOfSpeech firstMeaning) [], [], [])
           | Some (firstDefinition # _) \<Rightarrow>
               (or_else (partOfSpeech firstMeaning) [],
                or_else (definition_text firstDefinition) [],
                or_else (example firstDefinition) [])))"

definition resultHTML :: "engine \<Rightarrow> entry \<Rightarrow> result_view" where
  "resultHTML rt wordData =
     (case first_meaning wordData of
        (pos, defn, ex) \<Rightarrow>
          \<lparr>title = (case entry_word wordData of None \<Rightarrow> js ''undefined'' | Some w \<Rightarrow> w),
           phoneticText = or_else (phonetic wordData) (js ''Not available''),
           audioUrl = first_audio wordData,
           posIcon = getPartOfSpeechIcon pos,
           posText = (if pos \<noteq> [] then toUpperCase rt [hd pos] @ tl pos else js ''Not specified''),
           definitionText = (if defn \<noteq> [] then defn else js ''Definition not available''),
           exampleClass = (if ex \<noteq> [] then js ''example'' else js ''example-not-available''),
           exampleText = (if ex \<noteq> [] then 0x22 # ex @ [0x22] else js ''Example not available'')\<rparr>)"

text \<open>
  \<^verbatim>\<open>displayWordInfo\<close> destructures its argument first, which throws a TypeError when
  the argument is \<^verbatim>\<open>undefined\<close>; the region is only written at the end.
\<close>

definition displayWordInfo :: "engine \<Rightarrow> entry option \<Rightarrow> app \<Rightarrow> js_error + app" where
  "displayWordInfo rt wordData s =
     (case wordData of
        None \<Rightarrow> Inl TypeError
      | Some wd \<Rightarrow> Inr (s\<lparr>resultSection := Result (resultHTML rt wd)\<rparr>))"

section \<open>The interaction controller\<close>

definition API_BASE_URL :: "jsstring" where
  "API_BASE_URL = js ''https://api.dictionaryapi.dev/api/v2/entries/en/''"

text \<open>
  \<^verbatim>\<open>trim\<close> removes the white space and line terminators of ECMAScript from both
  ends of a string.
\<close>

definition is_space :: "16 word \<Rightarrow> bool" where
  "is_space c =
     (c = 0x09 \<or> c = 0x0A \<or> c = 0x0B \<or> c = 0x0C \<or> c = 0x0D \<or> c = 0x20 \<or> c = 0xA0
      \<or> c = 0x1680 \<or> (0x2000 \<le> c \<and> c \<le> 0x200A) \<or> c = 0x2028 \<or> c = 0x2029
      \<or> c = 0x202F \<or> c = 0x205F \<or> c = 0x3000 \<or> c = 0xFEFF)"

definition trim :: "jsstring \<Rightarrow> jsstring" where
  "trim s = rev (dropWhile is_space (rev (dropWhile is_space s)))"

text \<open>
  What \<^verbatim>\<open>fetch\<close> and \<^verbatim>\<open>response.json()\<close> give for a request: the request fails,
  or a response arrives with its status and a body that is not JSON or is the
  array of entries.
\<close>

datatype body = NotJson | Entries "entry list"

record response =
  status :: "nat"
  body :: "body"

datatype fetch_result = NetworkFailure | Responded response

definition ok :: "response \<Rightarrow> bool" where
  "ok r = (200 \<le> status r \<and> status r \<le> 299)"

definition showError :: "jsstring \<Rightarrow> app \<Rightarrow> app" where
  "showError message s = s\<lparr>resultSection := Error message\<rparr>"

definition showWelcomeMessage :: "app \<Rightarrow> app" where
  "showWelcomeMessage s = s\<lparr>resultSection := Welcome\<rparr>"

text \<open>The body of the \<^verbatim>\<open>try\<close> block of \<^verbatim>\<open>performSearch\<close>, after the request is sent.\<close>

definition search_try :: "engine \<Rightarrow> fetch_result \<Rightarrow> jsstring \<Rightarrow> app \<Rightarrow> js_error + app" where
  "search_try rt answer word s =
     (case answer of
        NetworkFailure \<Rightarrow> Inl TypeError
      | Responded r \<Rightarrow>
          if \<not> ok r then
            (if status r = 404 then Inl (Thrown (js ''Word not found''))
             else Inl (Thrown (js ''API request failed'')))
          else
            (case body r of
               NotJson \<Rightarrow> Inl SyntaxError
             | Entries data \<Rightarrow>
                 (case displayWordInfo rt (case data of [] \<Rightarrow> None | e # _ \<Rightarrow> Some e) s of
                    Inl err \<Rightarrow> Inl err
                  | Inr s' \<Rightarrow> Inr (addToSearchHistory word s'))))"

text \<open>
  The \<^verbatim>\<open>catch\<close> block. The messages of the errors the engine throws are its own
  and none of them is the text \<^verbatim>\<open>Word not found\<close>.
\<close>

definition search_catch :: "js_error \<Rightarrow> jsstring \<Rightarrow> app \<Rightarrow> app" where
  "search_catch err word s =
     (let s' = (if err = Thrown (js ''Word not found'')
                then showError (0x22 # word @ js ''\" not found. Please try another word.'') s
                else showError (js ''Something went wrong. Please try again later.'') s)
      in s'\<lparr>console := console s' @ [err]\<rparr>)"

definition performSearch :: "engine \<Rightarrow> (jsstring \<Rightarrow> fetch_result) \<Rightarrow> app \<Rightarrow> app" where
  "performSearch rt fetch s =
     (let word = toLowerCase rt (trim (wordInput s)) in
      if word = [] then showError (js ''Please enter a word to search.'') s
      else
        (let s1 = s\<lparr>resultSection := Loading, requests := requests s @ [API_BASE_URL @ word]\<rparr>
         in case search_try rt (fetch (API_BASE_URL @ word)) word s1 of
              Inl err \<Rightarrow> search_catch err word s1
            | Inr s2 \<Rightarrow> s2))"

section \<open>Concrete inputs\<close>

text \<open>
  An engine for the concrete cases below: on ASCII text the case conversions change
  the letters \<^verbatim>\<open>A\<close> to \<^verbatim>\<open>Z\<close> and \<^verbatim>\<open>a\<close> to \<^verbatim>\<open>z\<close> and nothing else.
\<close>

definition ascii_lower :: "jsstring \<Rightarrow> jsstring" where
  "ascii_lower s = map (\<lambda>c. if 0x41 \<le> c \<and> c \<le> 0x5A then c + 0x20 else c) s"

definition ascii_upper :: "jsstring \<Rightarrow> jsstring" where
  "ascii_upper s = map (\<lambda>c. if 0x61 \<le> c \<and> c \<le> 0x7A then c - 0x20 else c) s"

definition ascii_engine :: "engine" where
  "ascii_engine = \<lparr>toLowerCase = ascii_lower, toUpperCase = ascii_upper\<rparr>"

text \<open>An entry whose first meaning has one definition, with an empty text and no example.\<close>

definition entry_without_text :: "entry" where
  "entry_without_text =
     \<lparr>entry_word = Some (js ''hello''), phonetic = None, phonetics = None,
      meanings = Some [\<lparr>partOfSpeech = Some (js ''noun''),
                         definitions = Some [\<lparr>definition_text = Some [], example = None\<rparr>]\<rparr>]\<rparr>"

section \<open>Facts about strings\<close>

lemma of_char_less_256: "(of_char c :: nat) < 256"
proof -
  have "(of_char c :: nat) mod 256 < 256" by simp
  then show ?thesis by (simp only: of_char_mod_256)
qed

lemma unat_of_char: "unat (of_char c :: 16 word) = of_char c"
proof -
  have "(of_char c :: 16 word) = of_nat (of_char c)" by (simp only: of_nat_of_char)
  moreover have "(of_char c :: nat) < 65536" using of_char_less_256 [of c] by linarith
  ultimately show ?thesis by (simp add: unat_of_nat)
qed

lemma of_char_word_eq_iff [simp]: "(of_char c :: 16 word) = of_char d \<longleftrightarrow> c = d"
proof
  assume "(of_char c :: 16 word) = of_char d"
  then have "unat (of_char c :: 16 word) = unat (of_char d :: 16 word)" by simp
  then have "(of_char c :: nat) = of_char d" by (simp only: unat_of_char)
  then show "c = d" by simp
qed simp

lemma js_eq_iff [simp]: "js a = js b \<longleftrightarrow> a = b"
  unfolding js_def by (simp add: inj_map_eq_map inj_on_def)

lemma js_Nil [simp]: "js [] = []"
  by (simp add: js_def)

lemma js_eq_Nil [simp]: "js a = [] \<longleftrightarrow> a = []"
  by (simp add: js_def)

section \<open>Recording a word\<close>

lemma searchHistory_displaySearchHistory [simp]:
  "searchHistory (displaySearchHistory s) = searchHistory s"
  by (simp add: displaySearchHistory_def)

lemma searchHistory_persist [simp]: "searchHistory (persist s) = searchHistory s"
  by (simp add: persist_def)

lemma searchHistory_add:
  "searchHistory (addToSearchHistory w s) =
     (if length (filter (\<lambda>item. item \<noteq> w) (searchHistory s)) \<ge> 5
      then butlast (w # filter (\<lambda>item. item \<noteq> w) (searchHistory s))
      else w # filter (\<lambda>item. item \<noteq> w) (searchHistory s))"
  by (simp add: addToSearchHistory_def Let_def)

lemma searchHistory_add_Cons:
  "searchHistory (addToSearchHistory w s) =
     w # (if length (filter (\<lambda>item. item \<noteq> w) (searchHistory s)) \<ge> 5
          then butlast (filter (\<lambda>item. item \<noteq> w) (searchHistory s))
          else filter (\<lambda>item. item \<noteq> w) (searchHistory s))"
  by (auto simp: searchHistory_add)

lemma add_length_le:
  "length (searchHistory s) \<le> 5 \<Longrightarrow> length (searchHistory (addToSearchHistory w s)) \<le> 5"
proof -
  assume "length (searchHistory s) \<le> 5"
  moreover have "length (filter (\<lambda>item. item \<noteq> w) (searchHistory s)) \<le> length (searchHistory s)"
    by (rule length_filter_le)
  ultimately have "length (filter (\<lambda>item. item \<noteq> w) (searchHistory s)) \<le> 5"
    by (rule order_trans [rotated])
  then show ?thesis by (auto simp: searchHistory_add)
qed

lemma fold_add_length_le:
  "length (searchHistory s) \<le> 5 \<Longrightarrow> length (searchHistory (fold addToSearchHistory ws s)) \<le> 5"
  by (induction ws arbitrary: s) (simp_all add: add_length_le)

lemma filter_neq_id: "w \<notin> set xs \<Longrightarrow> filter (\<lambda>item. item \<noteq> w) xs = xs"
  by (induction xs) auto

lemma length_filter_distinct:
  "distinct xs \<Longrightarrow> length xs \<le> length (filter (\<lambda>item. item \<noteq> w) xs) + 1"
  by (induction xs) (auto simp: filter_neq_id)

lemma remdups_snoc:
  "remdups (xs @ [w]) = filter (\<lambda>item. item \<noteq> w) (remdups xs) @ [w]"
  by (induction xs) auto

lemma filter_take_prefix:
  "filter P (take n xs) = take (length (filter P (take n xs))) (filter P xs)"
proof -
  have "filter P xs = filter P (take n xs) @ filter P (drop n xs)"
    by (simp only: filter_append [symmetric] append_take_drop_id)
  then show ?thesis by simp
qed

lemma length_filter_one:
  "distinct xs \<Longrightarrow> w \<in> set xs \<Longrightarrow>
     length (filter (\<lambda>item. item \<noteq> w) xs) + 1 = length xs"
proof -
  assume d: "distinct xs" and m: "w \<in> set xs"
  from m have "length (filter (\<lambda>item. item \<noteq> w) xs) < length xs"
    by (intro length_filter_less [of w]) simp_all
  moreover from d have "length xs \<le> length (filter (\<lambda>item. item \<noteq> w) xs) + 1"
    by (rule length_filter_distinct)
  ultimately show ?thesis by linarith
qed

lemma add_take_five:
  assumes d: "distinct xs"
  shows "searchHistory (addToSearchHistory w (s\<lparr>searchHistory := take 5 xs\<rparr>))
           = take 5 (w # filter (\<lambda>item. item \<noteq> w) xs)"
proof -
  let ?F = "filter (\<lambda>item. item \<noteq> w) xs"
  let ?f = "filter (\<lambda>item. item \<noteq> w) (take 5 xs)"
  have pre: "?f = take (length ?f) ?F" by (rule filter_take_prefix)
  have goal: "take 5 (w # ?F) = w # take 4 ?F" by (simp add: take_Cons')
  show ?thesis
  proof (cases "5 \<le> length xs")
    case False
    then have "take 5 xs = xs" by simp
    moreover have "length ?F \<le> length xs" by (rule length_filter_le)
    with False have "length ?F < 5" by linarith
    ultimately show ?thesis by (simp add: searchHistory_add_Cons goal)
  next
    case long: True
    then have l5: "length (take 5 xs) = 5" by simp
    show ?thesis
    proof (cases "w \<in> set (take 5 xs)")
      case True
      moreover from d have "distinct (take 5 xs)" by simp
      ultimately have "length ?f + 1 = length (take 5 xs)" by (intro length_filter_one)
      with l5 have lf: "length ?f = 4" by linarith
      with pre have "?f = take 4 ?F" by simp
      with lf show ?thesis by (simp add: searchHistory_add_Cons goal)
    next
      case False
      then have id: "?f = take 5 xs" by (rule filter_neq_id)
      with l5 have lf: "length ?f = 5" by simp
      with pre have f5: "?f = take 5 ?F" by simp
      with lf have "5 \<le> length ?F" by (metis length_take min.cobounded1)
      then have "butlast (take 5 ?F) = take (5 - 1) ?F" by (rule butlast_take)
      then have "butlast ?f = take 4 ?F" using f5 by simp
      with lf show ?thesis by (simp add: searchHistory_add_Cons goal)
    qed
  qed
qed

lemma fold_add_remdups:
  "searchHistory s = [] \<Longrightarrow>
     searchHistory (fold addToSearchHistory ws s) = take 5 (rev (remdups ws))"
proof (induction ws rule: rev_induct)
  case Nil
  then show ?case by simp
next
  case (snoc w ws)
  let ?t = "fold addToSearchHistory ws s"
  from snoc have h: "searchHistory ?t = take 5 (rev (remdups ws))" by simp
  have d: "distinct (rev (remdups ws))" by simp
  have "?t = ?t\<lparr>searchHistory := take 5 (rev (remdups ws))\<rparr>" using h by simp
  then have "searchHistory (addToSearchHistory w ?t)
      = take 5 (w # filter (\<lambda>item. item \<noteq> w) (rev (remdups ws)))"
    using add_take_five [OF d, of w ?t] by simp
  moreover have "rev (remdups (ws @ [w])) = w # filter (\<lambda>item. item \<noteq> w) (rev (remdups ws))"
    by (simp add: remdups_snoc rev_filter)
  ultimately show ?case by simp
qed

lemma add_evicts_last:
  "length (searchHistory t) = 5 \<Longrightarrow> w \<notin> set (searchHistory t) \<Longrightarrow>
     searchHistory (addToSearchHistory w t) = w # butlast (searchHistory t)"
  by (simp add: searchHistory_add_Cons filter_neq_id)

lemma filter_neq_notin: "w \<notin> set (filter (\<lambda>item. item \<noteq> w) xs)"
  by simp

lemma butlast_notin: "w \<notin> set xs \<Longrightarrow> w \<notin> set (butlast xs)"
  by (auto dest: in_set_butlastD)

lemma count_list_notin: "w \<notin> set xs \<Longrightarrow> count_list xs w = 0"
  by (induction xs) auto

subsection \<open>C2: a recorded word moves to the front\<close>

text \<open>
  Counterexample to C2 as stated for every history state: a history that holds a
  word twice (the script takes whatever array the storage holds) still holds it
  twice after another word is recorded.
\<close>

theorem record_duplicates_counterexample:
  "searchHistory (addToSearchHistory (js ''b'') (app0\<lparr>searchHistory := [js ''a'', js ''a'']\<rparr>))
     = [js ''b'', js ''a'', js ''a'']
   \<and> \<not> distinct (searchHistory
         (addToSearchHistory (js ''b'') (app0\<lparr>searchHistory := [js ''a'', js ''a'']\<rparr>)))"
  by (simp add: searchHistory_add)

lemma add_three: "x \<noteq> y \<Longrightarrow>
  searchHistory (fold addToSearchHistory [x, y, x] (s\<lparr>searchHistory := []\<rparr>)) = [x, y]"
  by (simp add: searchHistory_add)

text \<open>
  C2, amended: for every history state and every word \<open>w\<close>, after
  \<^verbatim>\<open>addToSearchHistory(w)\<close> the history has \<open>w\<close> at index 0 and exactly once; if the
  history had no duplicates before, it has none after; and recording \<^verbatim>\<open>x\<close>, \<^verbatim>\<open>y\<close>,
  \<^verbatim>\<open>x\<close> from the empty history gives exactly \<^verbatim>\<open>["x","y"]\<close>.
\<close>

theorem record_moves_to_front:
  "searchHistory (addToSearchHistory w s) ! 0 = w
   \<and> count_list (searchHistory (addToSearchHistory w s)) w = 1
   \<and> (distinct (searchHistory s) \<longrightarrow> distinct (searchHistory (addToSearchHistory w s)))
   \<and> searchHistory (fold addToSearchHistory [js ''x'', js ''y'', js ''x'']
        (s\<lparr>searchHistory := []\<rparr>)) = [js ''x'', js ''y'']"
proof -
  let ?f = "filter (\<lambda>item. item \<noteq> w) (searchHistory s)"
  have notin: "w \<notin> set ?f" by simp
  have front: "searchHistory (addToSearchHistory w s) ! 0 = w"
    by (simp add: searchHistory_add_Cons)
  have once: "count_list (searchHistory (addToSearchHistory w s)) w = 1"
    using notin butlast_notin [OF notin]
    by (simp add: searchHistory_add_Cons count_list_notin)
  have dist: "distinct (searchHistory s) \<longrightarrow> distinct (searchHistory (addToSearchHistory w s))"
    using notin butlast_notin [OF notin]
    by (simp add: searchHistory_add_Cons distinct_butlast)
  have scen: "searchHistory (fold addToSearchHistory [js ''x'', js ''y'', js ''x'']
        (s\<lparr>searchHistory := []\<rparr>)) = [js ''x'', js ''y'']"
    by (rule add_three) simp
  from front once dist scen show ?thesis by blast
qed

text \<open>Witness for C2: recording \<^verbatim>\<open>b\<close> in the duplicate-free history \<^verbatim>\<open>["a","b"]\<close>.\<close>

theorem record_moves_to_front_witness:
  "distinct [js ''a'', js ''b'']
   \<and> distinct (searchHistory
        (addToSearchHistory (js ''b'') (app0\<lparr>searchHistory := [js ''a'', js ''b'']\<rparr>)))
   \<and> searchHistory (addToSearchHistory (js ''b'') (app0\<lparr>searchHistory := [js ''a'', js ''b'']\<rparr>))
       = [js ''b'', js ''a'']"
  using record_moves_to_front [of "js ''b''" "app0\<lparr>searchHistory := [js ''a'', js ''b'']\<rparr>"]
  by (simp add: searchHistory_add)

subsection \<open>C3: at most five entries\<close>

text \<open>
  C3: after any sequence of \<^verbatim>\<open>addToSearchHistory\<close> calls from the empty history the
  history has at most 5 entries: it is the first five of the words recorded, each
  once, from the most recent call back. When the history has 5 entries and a word it
  does not hold is recorded, the last (oldest) entry is dropped and the new word is
  put in front of the other four.
\<close>

theorem history_never_exceeds_five:
  "searchHistory s = [] \<Longrightarrow>
     length (searchHistory (fold addToSearchHistory ws s)) \<le> 5
     \<and> searchHistory (fold addToSearchHistory ws s) = take 5 (rev (remdups ws))
     \<and> (length (searchHistory (fold addToSearchHistory ws s)) = 5
          \<and> w \<notin> set (searchHistory (fold addToSearchHistory ws s)) \<longrightarrow>
          searchHistory (fold addToSearchHistory (ws @ [w]) s)
            = w # butlast (searchHistory (fold addToSearchHistory ws s)))"
proof -
  assume e: "searchHistory s = []"
  have bound: "length (searchHistory (fold addToSearchHistory ws s)) \<le> 5"
    using e by (simp add: fold_add_length_le)
  have order: "searchHistory (fold addToSearchHistory ws s) = take 5 (rev (remdups ws))"
    using e by (rule fold_add_remdups)
  have evict: "length (searchHistory (fold addToSearchHistory ws s)) = 5
          \<and> w \<notin> set (searchHistory (fold addToSearchHistory ws s)) \<longrightarrow>
          searchHistory (fold addToSearchHistory (ws @ [w]) s)
            = w # butlast (searchHistory (fold addToSearchHistory ws s))"
    by (simp add: add_evicts_last)
  from bound order evict show ?thesis by blast
qed

lemma five_recorded:
  "searchHistory (fold addToSearchHistory [js ''a'', js ''b'', js ''c'', js ''d'', js ''e''] app0)
     = [js ''e'', js ''d'', js ''c'', js ''b'', js ''a'']"
  by (simp add: searchHistory_add app0_def)

text \<open>
  Witness for C3: the calls \<^verbatim>\<open>a, b, c, d, e, a, f\<close> from the empty history, and the
  sixth distinct word \<^verbatim>\<open>f\<close> after \<^verbatim>\<open>a, b, c, d, e\<close>.
\<close>

theorem history_never_exceeds_five_witness:
  "searchHistory app0 = []
   \<and> searchHistory (fold addToSearchHistory
        [js ''a'', js ''b'', js ''c'', js ''d'', js ''e'', js ''a'', js ''f''] app0)
       = [js ''f'', js ''a'', js ''e'', js ''d'', js ''c'']
   \<and> length (searchHistory (fold addToSearchHistory
        [js ''a'', js ''b'', js ''c'', js ''d'', js ''e''] app0)) = 5
   \<and> js ''f'' \<notin> set (searchHistory (fold addToSearchHistory
        [js ''a'', js ''b'', js ''c'', js ''d'', js ''e''] app0))
   \<and> searchHistory (fold addToSearchHistory
        ([js ''a'', js ''b'', js ''c'', js ''d'', js ''e''] @ [js ''f'']) app0)
       = [js ''f'', js ''e'', js ''d'', js ''c'', js ''b'']"
proof -
  have e: "searchHistory app0 = []" by (simp add: app0_def)
  show ?thesis
    using history_never_exceeds_five [OF e, of "[js ''a'', js ''b'', js ''c'', js ''d'', js ''e'', js ''a'', js ''f'']"]
      history_never_exceeds_five [OF e, of "[js ''a'', js ''b'', js ''c'', js ''d'', js ''e'']" "js ''f''"]
      e five_recorded
    by simp
qed

subsection \<open>C10: one \<^verbatim>\<open>pop\<close> for each call\<close>

text \<open>
  Counterexample to C10 as stated: from a history of length 7 that holds one word
  seven times, recording that word gives a history of length 1, so the bound is
  restored from a state longer than 6.
\<close>

theorem record_restores_bound_counterexample:
  "length (searchHistory (addToSearchHistory (js ''a'')
      (app0\<lparr>searchHistory := [js ''a'', js ''a'', js ''a'', js ''a'', js ''a'', js ''a'', js ''a'']\<rparr>))) \<le> 5
   \<and> \<not> length (searchHistory
      (app0\<lparr>searchHistory := [js ''a'', js ''a'', js ''a'', js ''a'', js ''a'', js ''a'', js ''a'']\<rparr>)) \<le> 6"
  by (simp add: searchHistory_add)

text \<open>
  C10, amended: \<^verbatim>\<open>addToSearchHistory(w)\<close> drops at most one entry after the
  entries equal to \<open>w\<close> are removed and \<open>w\<close> is put in front, so the history grows by
  at most one. The result has at most 5 entries exactly when at most 5 entries of the
  state differ from \<open>w\<close>; for a state without duplicates this needs a length of at
  most 6. When the state is longer than 5 and does not hold \<open>w\<close>, the length stays
  as it was, above the bound.
\<close>

theorem record_pops_once:
  "length (filter (\<lambda>item. item \<noteq> w) (searchHistory s))
      \<le> length (searchHistory (addToSearchHistory w s))
   \<and> length (searchHistory (addToSearchHistory w s)) \<le> length (searchHistory s) + 1
   \<and> (length (searchHistory (addToSearchHistory w s)) \<le> 5
        \<longleftrightarrow> length (filter (\<lambda>item. item \<noteq> w) (searchHistory s)) \<le> 5)
   \<and> (distinct (searchHistory s) \<and> length (searchHistory (addToSearchHistory w s)) \<le> 5
        \<longrightarrow> length (searchHistory s) \<le> 6)
   \<and> (w \<notin> set (searchHistory s) \<and> length (searchHistory s) > 5
        \<longrightarrow> length (searchHistory (addToSearchHistory w s)) = length (searchHistory s))"
proof -
  let ?h = "searchHistory s"
  let ?f = "filter (\<lambda>item. item \<noteq> w) ?h"
  let ?r = "searchHistory (addToSearchHistory w s)"
  have len: "length ?r = (if 5 \<le> length ?f then length ?f else length ?f + 1)"
    by (simp add: searchHistory_add)
  have fl: "length ?f \<le> length ?h" by (rule length_filter_le)
  have c1: "length ?f \<le> length ?r" using len by simp
  have c2: "length ?r \<le> length ?h + 1"
  proof -
    from len have "length ?r \<le> length ?f + 1" by simp
    with fl show ?thesis by linarith
  qed
  have c3: "length ?r \<le> 5 \<longleftrightarrow> length ?f \<le> 5" using len by auto
  have c4: "distinct ?h \<and> length ?r \<le> 5 \<longrightarrow> length ?h \<le> 6"
    using c3 length_filter_distinct [of ?h w] by auto
  have c5: "w \<notin> set ?h \<and> length ?h > 5 \<longrightarrow> length ?r = length ?h"
  proof
    assume a: "w \<notin> set ?h \<and> length ?h > 5"
    then have "?f = ?h" by (simp add: filter_neq_id)
    with a len show "length ?r = length ?h" by simp
  qed
  from c1 c2 c3 c4 c5 show ?thesis by blast
qed

text \<open>
  Witness for C10: a duplicate-free history of length 6, with a word it holds and
  with a word it does not hold.
\<close>

theorem record_pops_once_witness:
  "distinct [js ''a'', js ''b'', js ''c'', js ''d'', js ''e'', js ''f'']
   \<and> length (searchHistory (addToSearchHistory (js ''f'')
        (app0\<lparr>searchHistory := [js ''a'', js ''b'', js ''c'', js ''d'', js ''e'', js ''f'']\<rparr>))) \<le> 5
   \<and> js ''g'' \<notin> set [js ''a'', js ''b'', js ''c'', js ''d'', js ''e'', js ''f'']
   \<and> length (searchHistory (addToSearchHistory (js ''g'')
        (app0\<lparr>searchHistory := [js ''a'', js ''b'', js ''c'', js ''d'', js ''e'', js ''f'']\<rparr>))) = 6"
  using record_pops_once [of "js ''f''" "app0\<lparr>searchHistory := [js ''a'', js ''b'', js ''c'', js ''d'', js ''e'', js ''f'']\<rparr>"]
    record_pops_once [of "js ''g''" "app0\<lparr>searchHistory := [js ''a'', js ''b'', js ''c'', js ''d'', js ''e'', js ''f'']\<rparr>"]
  by (simp add: searchHistory_add)

section \<open>Searching\<close>

lemma dropWhile_all: "list_all P xs \<Longrightarrow> dropWhile P xs = []"
  by (induction xs) auto

lemma trim_spaces: "list_all is_space s \<Longrightarrow> trim s = []"
  by (simp add: trim_def dropWhile_all)

lemma trim_Nil_iff: "trim s = [] \<longleftrightarrow> list_all is_space s"
proof
  assume "trim s = []"
  then have "dropWhile is_space (rev (dropWhile is_space s)) = []" by (simp add: trim_def)
  then have "\<forall>x \<in> set (rev (dropWhile is_space s)). is_space x" by (simp add: dropWhile_eq_Nil_conv)
  then have "dropWhile is_space s = []"
    by (cases "dropWhile is_space s") (auto dest: hd_dropWhile simp: dropWhile_eq_Cons_conv)
  then show "list_all is_space s" by (simp add: dropWhile_eq_Nil_conv list_all_iff)
qed (rule trim_spaces)

text \<open>
  C4: when every code unit of the input is white space (the empty input included),
  \<^verbatim>\<open>performSearch\<close> does nothing but show the error view with the message
  \<^verbatim>\<open>Please enter a word to search.\<close>: no request is sent and the history, in memory
  and in the storage, is as it was.
\<close>

theorem blank_input_shows_error:
  "list_all is_space (wordInput s) \<Longrightarrow> toLowerCase rt [] = [] \<Longrightarrow>
     performSearch rt fetch s = showError (js ''Please enter a word to search.'') s
     \<and> resultSection (performSearch rt fetch s) = Error (js ''Please enter a word to search.'')
     \<and> requests (performSearch rt fetch s) = requests s
     \<and> searchHistory (performSearch rt fetch s) = searchHistory s
     \<and> localStorage (performSearch rt fetch s) = localStorage s"
proof -
  assume "list_all is_space (wordInput s)" and low: "toLowerCase rt [] = []"
  then have "trim (wordInput s) = []" by (simp add: trim_spaces)
  with low have "performSearch rt fetch s = showError (js ''Please enter a word to search.'') s"
    by (simp add: performSearch_def)
  then show ?thesis by (simp add: showError_def)
qed

text \<open>Witness for C4: an input of three spaces, a tab and a no-break space.\<close>

lemma blank_input: "list_all is_space (js ''   '' @ [0x09, 0xA0])"
  by (simp add: js_def is_space_def)

lemma ascii_lower_Nil: "toLowerCase ascii_engine [] = []"
  by (simp add: ascii_engine_def ascii_lower_def)

theorem blank_input_shows_error_witness:
  "list_all is_space (wordInput (app0\<lparr>wordInput := js ''   '' @ [0x09, 0xA0]\<rparr>))
   \<and> toLowerCase ascii_engine [] = []
   \<and> resultSection (performSearch ascii_engine (\<lambda>url. NetworkFailure)
        (app0\<lparr>wordInput := js ''   '' @ [0x09, 0xA0]\<rparr>)) = Error (js ''Please enter a word to search.'')
   \<and> requests (performSearch ascii_engine (\<lambda>url. NetworkFailure)
        (app0\<lparr>wordInput := js ''   '' @ [0x09, 0xA0]\<rparr>)) = []"
proof -
  have blank: "list_all is_space (wordInput (app0\<lparr>wordInput := js ''   '' @ [0x09, 0xA0]\<rparr>))"
    using blank_input by simp
  show ?thesis
    using blank_input_shows_error [OF blank ascii_lower_Nil, of "\<lambda>url. NetworkFailure"]
      blank ascii_lower_Nil
    by (simp add: app0_def showError_def)
qed

lemma performSearch_word:
  "toLowerCase rt (trim (wordInput s)) = w \<Longrightarrow> w \<noteq> [] \<Longrightarrow>
     performSearch rt fetch s =
       (case search_try rt (fetch (API_BASE_URL @ w)) w
               (s\<lparr>resultSection := Loading, requests := requests s @ [API_BASE_URL @ w]\<rparr>) of
          Inl err \<Rightarrow> search_catch err w
               (s\<lparr>resultSection := Loading, requests := requests s @ [API_BASE_URL @ w]\<rparr>)
        | Inr s2 \<Rightarrow> s2)"
  by (simp add: performSearch_def Let_def)

lemma resultSection_catch:
  "resultSection (search_catch err w s) =
     (if err = Thrown (js ''Word not found'')
      then Error (0x22 # w @ js ''\" not found. Please try another word.'')
      else Error (js ''Something went wrong. Please try again later.''))"
  by (simp add: search_catch_def showError_def Let_def)

text \<open>
  C5: for a searched word \<open>w\<close> (the input trimmed and in lower case, not empty), an
  answer with status 404 gives the error view with the message \<open>w\<close> in double quotes
  followed by \<^verbatim>\<open> not found. Please try another word.\<close>; an answer with another status
  outside 200 to 299, a request that fails, and a body that is not JSON give the error
  view with the message \<^verbatim>\<open>Something went wrong. Please try again later.\<close>
\<close>

theorem failed_lookup_messages:
  "toLowerCase rt (trim (wordInput s)) = w \<Longrightarrow> w \<noteq> [] \<Longrightarrow>
     (fetch (API_BASE_URL @ w) = Responded r \<and> status r = 404 \<longrightarrow>
        resultSection (performSearch rt fetch s)
          = Error (0x22 # w @ js ''\" not found. Please try another word.''))
     \<and> (fetch (API_BASE_URL @ w) = Responded r \<and> \<not> ok r \<and> status r \<noteq> 404 \<longrightarrow>
        resultSection (performSearch rt fetch s)
          = Error (js ''Something went wrong. Please try again later.''))
     \<and> (fetch (API_BASE_URL @ w) = NetworkFailure \<longrightarrow>
        resultSection (performSearch rt fetch s)
          = Error (js ''Something went wrong. Please try again later.''))
     \<and> (fetch (API_BASE_URL @ w) = Responded r \<and> ok r \<and> body r = NotJson \<longrightarrow>
        resultSection (performSearch rt fetch s)
          = Error (js ''Something went wrong. Please try again later.''))"
proof -
  assume w: "toLowerCase rt (trim (wordInput s)) = w" "w \<noteq> []"
  note ps = performSearch_word [OF w, of fetch]
  have a: "fetch (API_BASE_URL @ w) = Responded r \<and> status r = 404 \<longrightarrow>
        resultSection (performSearch rt fetch s)
          = Error (0x22 # w @ js ''\" not found. Please try another word.'')"
    by (simp add: ps search_try_def ok_def resultSection_catch)
  have b: "fetch (API_BASE_URL @ w) = Responded r \<and> \<not> ok r \<and> status r \<noteq> 404 \<longrightarrow>
        resultSection (performSearch rt fetch s)
          = Error (js ''Something went wrong. Please try again later.'')"
    by (simp add: ps search_try_def resultSection_catch)
  have c: "fetch (API_BASE_URL @ w) = NetworkFailure \<longrightarrow>
        resultSection (performSearch rt fetch s)
          = Error (js ''Something went wrong. Please try again later.'')"
    by (simp add: ps search_try_def resultSection_catch)
  have d: "fetch (API_BASE_URL @ w) = Responded r \<and> ok r \<and> body r = NotJson \<longrightarrow>
        resultSection (performSearch rt fetch s)
          = Error (js ''Something went wrong. Please try again later.'')"
    by (simp add: ps search_try_def resultSection_catch)
  from a b c d show ?thesis by blast
qed

text \<open>Witness for C5: the input \<^verbatim>\<open> Zzzzz \<close> with each kind of failure.\<close>

lemma zzzzz_word: "toLowerCase ascii_engine (trim (wordInput (app0\<lparr>wordInput := js '' Zzzzz ''\<rparr>))) = js ''zzzzz''"
  by code_simp

theorem failed_lookup_messages_witness:
  "toLowerCase ascii_engine (trim (wordInput (app0\<lparr>wordInput := js '' Zzzzz ''\<rparr>))) = js ''zzzzz''
   \<and> js ''zzzzz'' \<noteq> []
   \<and> resultSection (performSearch ascii_engine (\<lambda>url. Responded \<lparr>status = 404, body = NotJson\<rparr>)
        (app0\<lparr>wordInput := js '' Zzzzz ''\<rparr>)) = Error (js ''\"zzzzz\" not found. Please try another word.'')
   \<and> resultSection (performSearch ascii_engine (\<lambda>url. Responded \<lparr>status = 500, body = NotJson\<rparr>)
        (app0\<lparr>wordInput := js '' Zzzzz ''\<rparr>)) = Error (js ''Something went wrong. Please try again later.'')
   \<and> resultSection (performSearch ascii_engine (\<lambda>url. NetworkFailure)
        (app0\<lparr>wordInput := js '' Zzzzz ''\<rparr>)) = Error (js ''Something went wrong. Please try again later.'')
   \<and> resultSection (performSearch ascii_engine (\<lambda>url. Responded \<lparr>status = 200, body = NotJson\<rparr>)
        (app0\<lparr>wordInput := js '' Zzzzz ''\<rparr>)) = Error (js ''Something went wrong. Please try again later.'')"
  using failed_lookup_messages [OF zzzzz_word, of "\<lambda>url. Responded \<lparr>status = 404, body = NotJson\<rparr>" "\<lparr>status = 404, body = NotJson\<rparr>"]
    failed_lookup_messages [OF zzzzz_word, of "\<lambda>url. Responded \<lparr>status = 500, body = NotJson\<rparr>" "\<lparr>status = 500, body = NotJson\<rparr>"]
    failed_lookup_messages [OF zzzzz_word, of "\<lambda>url. NetworkFailure"]
    failed_lookup_messages [OF zzzzz_word, of "\<lambda>url. Responded \<lparr>status = 200, body = NotJson\<rparr>" "\<lparr>status = 200, body = NotJson\<rparr>"]
    zzzzz_word
  by (simp add: ok_def js_def)

lemma search_catch_fields:
  "searchHistory (search_catch err w s) = searchHistory s"
  "localStorage (search_catch err w s) = localStorage s"
  "historyList (search_catch err w s) = historyList s"
  by (simp_all add: search_catch_def showError_def Let_def)

text \<open>
  C9: when the answer has a status from 200 to 299 and its body is the empty array,
  element 0 is \<^verbatim>\<open>undefined\<close>, \<^verbatim>\<open>displayWordInfo\<close> throws a TypeError on it, the
  \<^verbatim>\<open>catch\<close> block shows the error view with the message
  \<^verbatim>\<open>Something went wrong. Please try again later.\<close>, and the history is as it was, in
  memory, in the storage and on the page.
\<close>

theorem empty_array_answer:
  "toLowerCase rt (trim (wordInput s)) = w \<Longrightarrow> w \<noteq> [] \<Longrightarrow>
   fetch (API_BASE_URL @ w) = Responded r \<Longrightarrow> ok r \<Longrightarrow> body r = Entries [] \<Longrightarrow>
     displayWordInfo rt (case [] of [] \<Rightarrow> None | e # es \<Rightarrow> Some e) s' = Inl TypeError
     \<and> resultSection (performSearch rt fetch s)
          = Error (js ''Something went wrong. Please try again later.'')
     \<and> console (performSearch rt fetch s) = console s @ [TypeError]
     \<and> searchHistory (performSearch rt fetch s) = searchHistory s
     \<and> localStorage (performSearch rt fetch s) = localStorage s
     \<and> historyList (performSearch rt fetch s) = historyList s"
proof -
  assume w: "toLowerCase rt (trim (wordInput s)) = w" "w \<noteq> []"
    and r: "fetch (API_BASE_URL @ w) = Responded r" "ok r" "body r = Entries []"
  let ?s1 = "s\<lparr>resultSection := Loading, requests := requests s @ [API_BASE_URL @ w]\<rparr>"
  have thrown: "displayWordInfo rt (case [] of [] \<Rightarrow> None | e # es \<Rightarrow> Some e) s' = Inl TypeError"
    by (simp add: displayWordInfo_def)
  have "search_try rt (fetch (API_BASE_URL @ w)) w ?s1 = Inl TypeError"
    using r by (simp add: search_try_def displayWordInfo_def)
  then have ps: "performSearch rt fetch s = search_catch TypeError w ?s1"
    by (simp add: performSearch_word [OF w])
  have view: "resultSection (performSearch rt fetch s)
          = Error (js ''Something went wrong. Please try again later.'')"
    by (simp add: ps resultSection_catch)
  have log: "console (performSearch rt fetch s) = console s @ [TypeError]"
    by (simp add: ps search_catch_def showError_def Let_def)
  have kept: "searchHistory (performSearch rt fetch s) = searchHistory s"
    "localStorage (performSearch rt fetch s) = localStorage s"
    "historyList (performSearch rt fetch s) = historyList s"
    by (simp_all add: ps search_catch_fields)
  from thrown view log kept show ?thesis by blast
qed

text \<open>Witness for C9: the input \<^verbatim>\<open>hello\<close>, the history \<^verbatim>\<open>["cat"]\<close> and the answer \<^verbatim>\<open>[]\<close>.\<close>

lemma hello_word:
  "toLowerCase ascii_engine (trim (wordInput (app0\<lparr>wordInput := js ''hello'',
      searchHistory := [js ''cat'']\<rparr>))) = js ''hello''"
  by code_simp

theorem empty_array_answer_witness:
  "toLowerCase ascii_engine (trim (wordInput (app0\<lparr>wordInput := js ''hello'',
      searchHistory := [js ''cat'']\<rparr>))) = js ''hello''
   \<and> js ''hello'' \<noteq> []
   \<and> ok \<lparr>status = 200, body = Entries []\<rparr>
   \<and> body \<lparr>status = 200, body = Entries []\<rparr> = Entries []
   \<and> resultSection (performSearch ascii_engine (\<lambda>url. Responded \<lparr>status = 200, body = Entries []\<rparr>)
        (app0\<lparr>wordInput := js ''hello'', searchHistory := [js ''cat'']\<rparr>))
       = Error (js ''Something went wrong. Please try again later.'')
   \<and> searchHistory (performSearch ascii_engine (\<lambda>url. Responded \<lparr>status = 200, body = Entries []\<rparr>)
        (app0\<lparr>wordInput := js ''hello'', searchHistory := [js ''cat'']\<rparr>)) = [js ''cat'']"
proof -
  have nonempty: "js ''hello'' \<noteq> []" by simp
  have good: "ok \<lparr>status = 200, body = Entries []\<rparr>" by (simp add: ok_def)
  have empty: "body \<lparr>status = 200, body = Entries []\<rparr> = Entries []" by simp
  show ?thesis
    using empty_array_answer [where fetch = "\<lambda>url. Responded \<lparr>status = 200, body = Entries []\<rparr>",
        OF hello_word nonempty refl good empty]
      hello_word good
    by simp
qed

section \<open>Icons\<close>

lemma icon_of_known:
  "getPartOfSpeechIcon (js ''noun'') = Str (js ''fas fa-landmark'')"
  "getPartOfSpeechIcon (js ''verb'') = Str (js ''fas fa-running'')"
  "getPartOfSpeechIcon (js ''adjective'') = Str (js ''fas fa-adjust'')"
  "getPartOfSpeechIcon (js ''adverb'') = Str (js ''fas fa-bolt'')"
  "getPartOfSpeechIcon (js ''pronoun'') = Str (js ''fas fa-user'')"
  "getPartOfSpeechIcon (js ''preposition'') = Str (js ''fas fa-arrows-alt'')"
  "getPartOfSpeechIcon (js ''conjunction'') = Str (js ''fas fa-link'')"
  "getPartOfSpeechIcon (js ''interjection'') = Str (js ''fas fa-exclamation'')"
  by (simp_all add: getPartOfSpeechIcon_def get_property_def iconMap_def)

lemma icons_distinct:
  "distinct (map snd iconMap)"
  by (simp add: iconMap_def)

lemma icon_of_other:
  "pos \<notin> set (map fst iconMap) \<Longrightarrow> pos \<notin> set Object_prototype \<Longrightarrow>
     getPartOfSpeechIcon pos = Str (js ''fas fa-font'')"
proof -
  assume "pos \<notin> set (map fst iconMap)" and out: "pos \<notin> set Object_prototype"
  then have "map_of iconMap pos = None" by (simp add: map_of_eq_None_iff)
  with out show ?thesis
    by (simp add: getPartOfSpeechIcon_def get_property_def)
qed

lemma icon_defined: "getPartOfSpeechIcon pos \<noteq> Undefined"
  by (cases "get_property iconMap pos") (simp_all add: getPartOfSpeechIcon_def)

text \<open>
  C6 at the word \<^verbatim>\<open>constructor\<close>: \<^verbatim>\<open>iconMap["constructor"]\<close> is the function that
  \<^verbatim>\<open>iconMap\<close> inherits from \<^verbatim>\<open>Object.prototype\<close>, which is truthy, so
  \<^verbatim>\<open>getPartOfSpeechIcon\<close> returns it and not the default icon \<^verbatim>\<open>fas fa-font\<close>.
\<close>

theorem icon_of_constructor:
  "getPartOfSpeechIcon (js ''constructor'') = Inherited (js ''constructor'')
   \<and> getPartOfSpeechIcon (js ''constructor'') \<noteq> Str (js ''fas fa-font'')"
  by (simp add: getPartOfSpeechIcon_def get_property_def iconMap_def Object_prototype_def)

section \<open>The result view\<close>

text \<open>
  Counterexample to C7 as stated: the first meaning of the entry has one definition,
  so both sequences are non-empty, and the text of that definition is the empty
  string; the view shows the placeholder and not that text.
\<close>

theorem empty_definition_counterexample:
  "meanings entry_without_text =
     Some [\<lparr>partOfSpeech = Some (js ''noun''),
            definitions = Some [\<lparr>definition_text = Some [], example = None\<rparr>]\<rparr>]
   \<and> definitionText (resultHTML ascii_engine entry_without_text) = js ''Definition not available''
   \<and> definitionText (resultHTML ascii_engine entry_without_text) \<noteq> []"
  by (simp add: entry_without_text_def resultHTML_def first_meaning_def or_else_def)

text \<open>
  C7, amended: the view shows the phonetic text of the entry when it is present and
  not empty, and \<^verbatim>\<open>Not available\<close> otherwise; the part of speech of the first meaning
  with its first code unit in upper case when it is present and not empty, and
  \<^verbatim>\<open>Not specified\<close> otherwise; the text of the first definition of the first meaning
  when it is present and not empty, and \<^verbatim>\<open>Definition not available\<close> otherwise; the
  example of that definition, in double quotes, when it is present and not empty, and
  \<^verbatim>\<open>Example not available\<close> otherwise.
\<close>

theorem result_view_fields:
  "phoneticText (resultHTML rt e) =
     (case phonetic e of
        Some p \<Rightarrow> if p = [] then js ''Not available'' else p
      | None \<Rightarrow> js ''Not available'')
   \<and> posText (resultHTML rt e) =
     (case meanings e of
        Some (m # ms) \<Rightarrow>
          (case partOfSpeech m of
             Some pos \<Rightarrow> if pos = [] then js ''Not specified'' else toUpperCase rt [hd pos] @ tl pos
           | None \<Rightarrow> js ''Not specified'')
      | _ \<Rightarrow> js ''Not specified'')
   \<and> definitionText (resultHTML rt e) =
     (case meanings e of
        Some (m # ms) \<Rightarrow>
          (case definitions m of
             Some (d # ds) \<Rightarrow>
               (case definition_text d of
                  Some t \<Rightarrow> if t = [] then js ''Definition not available'' else t
                | None \<Rightarrow> js ''Definition not available'')
           | _ \<Rightarrow> js ''Definition not available'')
      | _ \<Rightarrow> js ''Definition not available'')
   \<and> exampleText (resultHTML rt e) =
     (case meanings e of
        Some (m # ms) \<Rightarrow>
          (case definitions m of
             Some (d # ds) \<Rightarrow>
               (case example d of
                  Some x \<Rightarrow> if x = [] then js ''Example not available'' else 0x22 # x @ [0x22]
                | None \<Rightarrow> js ''Example not available'')
           | _ \<Rightarrow> js ''Example not available'')
      | _ \<Rightarrow> js ''Example not available'')"
proof -
  have p: "phoneticText (resultHTML rt e) =
     (case phonetic e of
        Some p \<Rightarrow> if p = [] then js ''Not available'' else p
      | None \<Rightarrow> js ''Not available'')"
    by (simp add: resultHTML_def or_else_def split: prod.splits option.splits)
  show ?thesis
    unfolding p
    by (simp add: resultHTML_def first_meaning_def or_else_def
        split: prod.splits option.splits list.splits)
qed

section \<open>The parser has fuel enough\<close>

lemma length_skip_ws: "length (skip_ws cs) \<le> length cs"
  by (simp add: skip_ws_def length_dropWhile_le)

lemma skip_ws_Cons_shorter: "skip_ws r = d # r' \<Longrightarrow> length r' < length r"
  using length_skip_ws [of r] by simp

lemma cons_unit_Some: "cons_unit u p = Some (s, r) \<Longrightarrow> \<exists>s'. p = Some (s', r)"
  by (auto simp: cons_unit_def split: option.splits)

lemma parse_chars_shorter: "parse_chars cs = Some (s, r) \<Longrightarrow> length r < length cs"
proof (induction cs arbitrary: s rule: length_induct)
  case (1 xs)
  note IH = 1(1) [rule_format]
  show ?case
  proof (cases xs)
    case Nil
    with 1(2) show ?thesis by simp
  next
    case xs: (Cons c cs)
    show ?thesis
    proof (cases "c = 0x22")
      case True
      with 1(2) xs show ?thesis by simp
    next
      case quote: False
      show ?thesis
      proof (cases "c = 0x5C")
        case bs: True
        show ?thesis
        proof (cases cs)
          case Nil
          with 1(2) xs quote bs show ?thesis by simp
        next
          case (Cons e es)
          show ?thesis
          proof (cases "e = 0x75")
            case u: True
            from 1(2) xs quote bs Cons u obtain h1 h2 h3 h4 rest v
              where es: "es = h1 # h2 # h3 # h4 # rest"
                and p: "cons_unit v (parse_chars rest) = Some (s, r)"
              by (auto split: list.splits option.splits)
            from cons_unit_Some [OF p] obtain s' where "parse_chars rest = Some (s', r)" ..
            moreover have "length rest < length xs" using xs Cons es by simp
            ultimately have "length r < length rest" by (rule IH [rotated])
            with xs Cons es show ?thesis by simp
          next
            case False
            from 1(2) xs quote bs Cons False obtain v
              where p: "cons_unit v (parse_chars es) = Some (s, r)"
              by (auto split: option.splits)
            from cons_unit_Some [OF p] obtain s' where "parse_chars es = Some (s', r)" ..
            moreover have "length es < length xs" using xs Cons by simp
            ultimately have "length r < length es" by (rule IH [rotated])
            with xs Cons show ?thesis by simp
          qed
        qed
      next
        case False
        with 1(2) xs quote have p: "cons_unit c (parse_chars cs) = Some (s, r)"
          by (auto split: if_splits)
        from cons_unit_Some [OF p] obtain s' where "parse_chars cs = Some (s', r)" ..
        moreover have "length cs < length xs" using xs by simp
        ultimately have "length r < length cs" by (rule IH [rotated])
        with xs show ?thesis by simp
      qed
    qed
  qed
qed

lemma parse_fraction_le: "parse_fraction cs = Some (fp, r) \<Longrightarrow> length r \<le> length cs"
  by (auto simp: parse_fraction_def split: list.splits if_splits
      intro: le_SucI length_dropWhile_le)

lemma parse_sign_le: "parse_sign cs = (sg, r) \<Longrightarrow> length r \<le> length cs"
  by (auto simp: parse_sign_def split: list.splits if_splits)

lemma parse_exponent_le: "parse_exponent cs = Some (ex, r) \<Longrightarrow> length r \<le> length cs"
proof -
  assume a: "parse_exponent cs = Some (ex, r)"
  show ?thesis
  proof (cases cs)
    case Nil
    with a show ?thesis by (simp add: parse_exponent_def)
  next
    case (Cons c t)
    show ?thesis
    proof (cases "c = 0x65 \<or> c = 0x45")
      case True
      obtain sg t' where sg: "parse_sign t = (sg, t')" by (cases "parse_sign t")
      with a Cons True have "r = dropWhile is_digit t'"
        by (auto simp: parse_exponent_def split: if_splits)
      moreover have "length (dropWhile is_digit t') \<le> length t'" by (rule length_dropWhile_le)
      moreover have "length t' \<le> length t" using sg by (rule parse_sign_le)
      ultimately show ?thesis using Cons by simp
    next
      case False
      with a Cons show ?thesis by (auto simp: parse_exponent_def)
    qed
  qed
qed

lemma dropWhile_shorter: "takeWhile P xs \<noteq> [] \<Longrightarrow> length (dropWhile P xs) < length xs"
  by (cases xs) (auto simp: le_imp_less_Suc length_dropWhile_le split: if_splits)

lemma parse_number_shorter: "parse_number cs = Some (v, r) \<Longrightarrow> length r < length cs"
proof -
  assume a: "parse_number cs = Some (v, r)"
  define cs1 where "cs1 = (case cs of [] \<Rightarrow> cs | c # t \<Rightarrow> if c = 0x2D then t else cs)"
  have l1: "length cs1 \<le> length cs" by (auto simp: cs1_def split: list.splits)
  have sg: "(case cs of [] \<Rightarrow> (1::int, cs) | c # t \<Rightarrow> if c = 0x2D then (- 1, t) else (1, cs))
      = ((case cs of [] \<Rightarrow> 1 | c # t \<Rightarrow> if c = 0x2D then - 1 else 1), cs1)"
    by (auto simp: cs1_def split: list.splits)
  from a obtain fp cs3 ex where ip: "takeWhile is_digit cs1 \<noteq> []"
    and fr: "parse_fraction (dropWhile is_digit cs1) = Some (fp, cs3)"
    and ex: "parse_exponent cs3 = Some (ex, r)"
    unfolding parse_number_def sg
    by (auto simp: Let_def split: if_splits option.splits)
  have "length r \<le> length cs3" using ex by (rule parse_exponent_le)
  moreover have "length cs3 \<le> length (dropWhile is_digit cs1)" using fr by (rule parse_fraction_le)
  moreover have "length (dropWhile is_digit cs1) < length cs1" using ip by (rule dropWhile_shorter)
  ultimately show ?thesis using l1 by linarith
qed


lemma map_parsed_Accept: "map_parsed f p = Accept y r \<Longrightarrow> \<exists>x. p = Accept x r"
  by (cases p) simp_all

lemma map_parsed_OutOfFuel: "map_parsed f p = OutOfFuel \<Longrightarrow> p = OutOfFuel"
  by (cases p) simp_all

lemma parse_value_shorter_step:
  assumes el: "\<And>cs vs r. parse_elements n cs = Accept vs r \<Longrightarrow> length r < length cs"
    and me: "\<And>cs ms r. parse_members n cs = Accept ms r \<Longrightarrow> length r < length cs"
    and a: "parse_value (Suc n) cs = Accept v r"
  shows "length r < length cs"
proof (cases cs)
  case Nil
  with a show ?thesis by simp
next
  case (Cons c t)
  consider (str) "c = 0x22" | (arr) "c \<noteq> 0x22" "c = 0x5B" | (obj) "c \<noteq> 0x22" "c \<noteq> 0x5B" "c = 0x7B"
    | (other) "c \<noteq> 0x22" "c \<noteq> 0x5B" "c \<noteq> 0x7B" by blast
  then show ?thesis
  proof cases
    case str
    with a Cons obtain s where "parse_chars t = Some (s, r)"
      by (auto split: option.splits)
    then have "length r < length t" by (rule parse_chars_shorter)
    with Cons show ?thesis by simp
  next
    case arr
    show ?thesis
    proof (cases "skip_ws t")
      case Nil
      with a Cons arr show ?thesis by simp
    next
      case sk: (Cons d r')
      show ?thesis
      proof (cases "d = 0x5D")
        case True
        with a Cons arr sk have "r = r'" by simp
        with skip_ws_Cons_shorter [OF sk] Cons show ?thesis by simp
      next
        case False
        with a Cons arr sk have "map_parsed JArr (parse_elements n t) = Accept v r" by simp
        from map_parsed_Accept [OF this] obtain vs where "parse_elements n t = Accept vs r" ..
        then have "length r < length t" by (rule el)
        with Cons show ?thesis by simp
      qed
    qed
  next
    case obj
    show ?thesis
    proof (cases "skip_ws t")
      case Nil
      with a Cons obj show ?thesis by simp
    next
      case sk: (Cons d r')
      show ?thesis
      proof (cases "d = 0x7D")
        case True
        with a Cons obj sk have "r = r'" by simp
        with skip_ws_Cons_shorter [OF sk] Cons show ?thesis by simp
      next
        case False
        with a Cons obj sk have "map_parsed JObj (parse_members n t) = Accept v r" by simp
        from map_parsed_Accept [OF this] obtain ms where "parse_members n t = Accept ms r" ..
        then have "length r < length t" by (rule me)
        with Cons show ?thesis by simp
      qed
    qed
  next
    case other
    with a Cons have "r = drop 4 cs \<or> r = drop 5 cs \<or> (\<exists>v. parse_number cs = Some (v, r))"
      by (auto split: if_splits option.splits)
    then show ?thesis
      using Cons by (auto dest: parse_number_shorter)
  qed
qed

lemma parse_elements_shorter_step:
  assumes va: "\<And>cs v r. parse_value n cs = Accept v r \<Longrightarrow> length r < length cs"
    and el: "\<And>cs vs r. parse_elements n cs = Accept vs r \<Longrightarrow> length r < length cs"
    and a: "parse_elements (Suc n) cs = Accept vs r"
  shows "length r < length cs"
proof -
  from a obtain v r1 where v: "parse_value n (skip_ws cs) = Accept v r1"
    by (auto split: parsed.splits)
  then have "length r1 < length (skip_ws cs)" by (rule va)
  with length_skip_ws [of cs] have l1: "length r1 < length cs" by linarith
  from a v obtain d r' where sk: "skip_ws r1 = d # r'"
    by (auto split: list.splits)
  have l2: "length r' < length r1" using sk by (rule skip_ws_Cons_shorter)
  show ?thesis
  proof (cases "d = 0x2C")
    case True
    with a v sk have "map_parsed (\<lambda>vs. v # vs) (parse_elements n r') = Accept vs r" by simp
    from map_parsed_Accept [OF this] obtain ws where "parse_elements n r' = Accept ws r" ..
    then have "length r < length r'" by (rule el)
    with l1 l2 show ?thesis by linarith
  next
    case False
    with a v sk have "r = r'" by (auto split: if_splits)
    with l1 l2 show ?thesis by simp
  qed
qed

lemma parse_members_shorter_step:
  assumes va: "\<And>cs v r. parse_value n cs = Accept v r \<Longrightarrow> length r < length cs"
    and me: "\<And>cs ms r. parse_members n cs = Accept ms r \<Longrightarrow> length r < length cs"
    and a: "parse_members (Suc n) cs = Accept ms r"
  shows "length r < length cs"
proof -
  from a obtain q t where sk0: "skip_ws cs = q # t" and q: "q = 0x22"
    by (auto split: list.splits if_splits)
  from a sk0 q obtain k r1 where key: "parse_chars t = Some (k, r1)"
    by (auto split: option.splits)
  from a sk0 q key obtain colon r2 where sk1: "skip_ws r1 = colon # r2" and colon: "colon = 0x3A"
    by (auto split: list.splits if_splits)
  from a sk0 q key sk1 colon obtain v r3 where v: "parse_value n (skip_ws r2) = Accept v r3"
    by (auto split: parsed.splits)
  from a sk0 q key sk1 colon v obtain d r4 where sk3: "skip_ws r3 = d # r4"
    by (auto split: list.splits)
  have "length t < length cs" using skip_ws_Cons_shorter [OF sk0] .
  moreover have "length r1 < length t" using key by (rule parse_chars_shorter)
  moreover have "length r2 < length r1" using sk1 by (rule skip_ws_Cons_shorter)
  moreover have "length r3 < length (skip_ws r2)" using v by (rule va)
  moreover have "length (skip_ws r2) \<le> length r2" by (rule length_skip_ws)
  moreover have "length r4 < length r3" using sk3 by (rule skip_ws_Cons_shorter)
  ultimately have l: "length r4 < length cs" by linarith
  show ?thesis
  proof (cases "d = 0x2C")
    case True
    with a sk0 q key sk1 colon v sk3
    have "map_parsed (add_member k v) (parse_members n r4) = Accept ms r" by simp
    from map_parsed_Accept [OF this] obtain ws where "parse_members n r4 = Accept ws r" ..
    then have "length r < length r4" by (rule me)
    with l show ?thesis by linarith
  next
    case False
    with a sk0 q key sk1 colon v sk3 have "r = r4" by (auto split: if_splits)
    with l show ?thesis by simp
  qed
qed

lemma parse_shorter:
  "(\<forall>cs v r. parse_value n cs = Accept v r \<longrightarrow> length r < length cs)
   \<and> (\<forall>cs vs r. parse_elements n cs = Accept vs r \<longrightarrow> length r < length cs)
   \<and> (\<forall>cs ms r. parse_members n cs = Accept ms r \<longrightarrow> length r < length cs)"
proof (induction n)
  case 0
  show ?case by simp
next
  case (Suc n)
  then have va: "\<And>cs v r. parse_value n cs = Accept v r \<Longrightarrow> length r < length cs"
    and el: "\<And>cs vs r. parse_elements n cs = Accept vs r \<Longrightarrow> length r < length cs"
    and me: "\<And>cs ms r. parse_members n cs = Accept ms r \<Longrightarrow> length r < length cs"
    by blast+
  have "length r < length cs" if "parse_value (Suc n) cs = Accept v r" for cs v r
    using el me that by (rule parse_value_shorter_step)
  moreover have "length r < length cs" if "parse_elements (Suc n) cs = Accept vs r" for cs vs r
    using va el that by (rule parse_elements_shorter_step)
  moreover have "length r < length cs" if "parse_members (Suc n) cs = Accept ms r" for cs ms r
    using va me that by (rule parse_members_shorter_step)
  ultimately show ?case by blast
qed

lemma parse_value_shorter: "parse_value n cs = Accept v r \<Longrightarrow> length r < length cs"
  using parse_shorter [of n] by blast


lemma parse_value_fuel_step:
  assumes el: "\<And>cs. 2 * length cs + 1 < n \<Longrightarrow> parse_elements n cs \<noteq> OutOfFuel"
    and me: "\<And>cs. 2 * length cs + 1 < n \<Longrightarrow> parse_members n cs \<noteq> OutOfFuel"
    and fuel: "2 * length cs < Suc n"
  shows "parse_value (Suc n) cs \<noteq> OutOfFuel"
proof (cases cs)
  case Nil
  then show ?thesis by simp
next
  case (Cons c t)
  with fuel have "2 * length t + 1 < n" by simp
  then have "parse_elements n t \<noteq> OutOfFuel" "parse_members n t \<noteq> OutOfFuel"
    by (simp_all add: el me)
  then have "map_parsed JArr (parse_elements n t) \<noteq> OutOfFuel"
    "map_parsed JObj (parse_members n t) \<noteq> OutOfFuel"
    by (auto dest: map_parsed_OutOfFuel)
  with Cons show ?thesis
    by (auto split: list.splits option.splits)
qed

lemma parse_elements_fuel_step:
  assumes va: "\<And>cs. 2 * length cs < n \<Longrightarrow> parse_value n cs \<noteq> OutOfFuel"
    and el: "\<And>cs. 2 * length cs + 1 < n \<Longrightarrow> parse_elements n cs \<noteq> OutOfFuel"
    and fuel: "2 * length cs + 1 < Suc n"
  shows "parse_elements (Suc n) cs \<noteq> OutOfFuel"
proof (cases "parse_value n (skip_ws cs)")
  case OutOfFuel
  moreover have "2 * length (skip_ws cs) < n" using fuel length_skip_ws [of cs] by linarith
  ultimately show ?thesis using va by blast
next
  case Reject
  then show ?thesis by simp
next
  case (Accept v r1)
  then have l1: "length r1 < length (skip_ws cs)" by (rule parse_value_shorter)
  show ?thesis
  proof (cases "skip_ws r1")
    case Nil
    with Accept show ?thesis by simp
  next
    case (Cons d r')
    have "length r' < length r1" using Cons by (rule skip_ws_Cons_shorter)
    with l1 fuel length_skip_ws [of cs] have "2 * length r' + 1 < n" by linarith
    then have "parse_elements n r' \<noteq> OutOfFuel" by (rule el)
    then have "map_parsed (\<lambda>vs. v # vs) (parse_elements n r') \<noteq> OutOfFuel"
      by (auto dest: map_parsed_OutOfFuel)
    with Accept Cons show ?thesis by simp
  qed
qed

lemma parse_members_fuel_step:
  assumes va: "\<And>cs. 2 * length cs < n \<Longrightarrow> parse_value n cs \<noteq> OutOfFuel"
    and me: "\<And>cs. 2 * length cs + 1 < n \<Longrightarrow> parse_members n cs \<noteq> OutOfFuel"
    and fuel: "2 * length cs + 1 < Suc n"
  shows "parse_members (Suc n) cs \<noteq> OutOfFuel"
proof (cases "skip_ws cs")
  case Nil
  then show ?thesis by simp
next
  case sk0: (Cons q t)
  have l0: "length t < length cs" using sk0 by (rule skip_ws_Cons_shorter)
  show ?thesis
  proof (cases "parse_chars t")
    case None
    with sk0 show ?thesis by simp
  next
    case (Some kr)
    obtain k r1 where kr: "kr = (k, r1)" by (cases kr)
    with Some have "length r1 < length t" by (simp add: parse_chars_shorter)
    with l0 have l1: "length r1 < length cs" by linarith
    show ?thesis
    proof (cases "skip_ws r1")
      case Nil
      with sk0 Some kr show ?thesis by simp
    next
      case sk1: (Cons colon r2)
      have "length r2 < length r1" using sk1 by (rule skip_ws_Cons_shorter)
      with l1 length_skip_ws [of r2] have l2: "length (skip_ws r2) < length cs" by linarith
      show ?thesis
      proof (cases "parse_value n (skip_ws r2)")
        case OutOfFuel
        moreover have "2 * length (skip_ws r2) < n" using l2 fuel by linarith
        ultimately show ?thesis using va by blast
      next
        case Reject
        with sk0 Some kr sk1 show ?thesis by simp
      next
        case (Accept v r3)
        then have l3: "length r3 < length (skip_ws r2)" by (rule parse_value_shorter)
        show ?thesis
        proof (cases "skip_ws r3")
          case Nil
          with sk0 Some kr sk1 Accept show ?thesis by simp
        next
          case (Cons d r4)
          have "length r4 < length r3" using Cons by (rule skip_ws_Cons_shorter)
          with l2 l3 fuel have "2 * length r4 + 1 < n" by linarith
          then have "parse_members n r4 \<noteq> OutOfFuel" by (rule me)
          then have "map_parsed (add_member k v) (parse_members n r4) \<noteq> OutOfFuel"
            by (auto dest: map_parsed_OutOfFuel)
          with sk0 Some kr sk1 Accept Cons show ?thesis by simp
        qed
      qed
    qed
  qed
qed

lemma parse_fuel:
  "(\<forall>cs. 2 * length cs < n \<longrightarrow> parse_value n cs \<noteq> OutOfFuel)
   \<and> (\<forall>cs. 2 * length cs + 1 < n \<longrightarrow> parse_elements n cs \<noteq> OutOfFuel)
   \<and> (\<forall>cs. 2 * length cs + 1 < n \<longrightarrow> parse_members n cs \<noteq> OutOfFuel)"
proof (induction n)
  case 0
  show ?case by simp
next
  case (Suc n)
  then have va: "\<And>cs. 2 * length cs < n \<Longrightarrow> parse_value n cs \<noteq> OutOfFuel"
    and el: "\<And>cs. 2 * length cs + 1 < n \<Longrightarrow> parse_elements n cs \<noteq> OutOfFuel"
    and me: "\<And>cs. 2 * length cs + 1 < n \<Longrightarrow> parse_members n cs \<noteq> OutOfFuel"
    by blast+
  have "parse_value (Suc n) cs \<noteq> OutOfFuel" if "2 * length cs < Suc n" for cs
    using el me that by (rule parse_value_fuel_step)
  moreover have "parse_elements (Suc n) cs \<noteq> OutOfFuel" if "2 * length cs + 1 < Suc n" for cs
    using va el that by (rule parse_elements_fuel_step)
  moreover have "parse_members (Suc n) cs \<noteq> OutOfFuel" if "2 * length cs + 1 < Suc n" for cs
    using va me that by (rule parse_members_fuel_step)
  ultimately show ?case by blast
qed

text \<open>
  \<open>JSON_parse\<close> never runs out of fuel: it rejects a text only where the grammar does.
\<close>

lemma JSON_parse_fuel: "parse_value (2 * length t + 2) (skip_ws t) \<noteq> OutOfFuel"
proof -
  have "2 * length (skip_ws t) < 2 * length t + 2"
    using length_skip_ws [of t] by linarith
  with parse_fuel [of "2 * length t + 2"] show ?thesis by blast
qed

lemma JSON_parse_SyntaxError:
  "JSON_parse t = Inl e \<longleftrightarrow>
     e = SyntaxError \<and>
     (parse_value (2 * length t + 2) (skip_ws t) = Reject
      \<or> (\<exists>v r. parse_value (2 * length t + 2) (skip_ws t) = Accept v r \<and> skip_ws r \<noteq> []))"
  using JSON_parse_fuel [of t]
  by (cases "parse_value (2 * length t + 2) (skip_ws t)") (auto simp: JSON_parse_def)

section \<open>Quoting and reading back a string\<close>

lemma hex_digits_below_16: "list_all (\<lambda>n. hex_value (hex_digit n) = Some n) [0..<16]"
  by code_simp

lemma hex_value_hex_digit: "n < 16 \<Longrightarrow> hex_value (hex_digit n) = Some n"
proof -
  assume "n < 16"
  then have "n \<in> set [0..<16]" by simp
  with hex_digits_below_16 show ?thesis by (simp only: list_all_iff)
qed

lemma hex_digits_value:
  "((n div 4096 * 16 + n div 256 mod 16) * 16 + n div 16 mod 16) * 16 + n mod 16 = (n::nat)"
proof -
  have a: "n div 256 div 16 * 16 + n div 256 mod 16 = n div 256" by (rule div_mult_mod_eq)
  have b: "n div 16 div 16 * 16 + n div 16 mod 16 = n div 16" by (rule div_mult_mod_eq)
  have c: "n div 16 * 16 + n mod 16 = n" by (rule div_mult_mod_eq)
  have d: "n div 256 div 16 = n div 4096" "n div 16 div 16 = n div 256"
    by (simp_all add: div_mult2_eq [symmetric])
  from a d have "n div 4096 * 16 + n div 256 mod 16 = n div 256" by simp
  moreover from b d have "n div 256 * 16 + n div 16 mod 16 = n div 16" by simp
  ultimately show ?thesis using c by simp
qed

lemma hex4_unicode_escape:
  "hex4 (hex_digit (unat c div 4096)) (hex_digit (unat c div 256 mod 16))
        (hex_digit (unat c div 16 mod 16)) (hex_digit (unat c mod 16)) = Some (c :: 16 word)"
proof -
  have "unat c < 2 ^ 16" using unsigned_less [of c, where ?'a = nat] by simp
  then have h1: "hex_value (hex_digit (unat c div 4096)) = Some (unat c div 4096)"
    by (intro hex_value_hex_digit) simp
  have h2: "hex_value (hex_digit (unat c div 256 mod 16)) = Some (unat c div 256 mod 16)"
    by (intro hex_value_hex_digit) simp
  have h3: "hex_value (hex_digit (unat c div 16 mod 16)) = Some (unat c div 16 mod 16)"
    by (intro hex_value_hex_digit) simp
  have h4: "hex_value (hex_digit (unat c mod 16)) = Some (unat c mod 16)"
    by (intro hex_value_hex_digit) simp
  have "(of_nat (((unat c div 4096 * 16 + unat c div 256 mod 16) * 16 + unat c div 16 mod 16) * 16
          + unat c mod 16) :: 16 word) = of_nat (unat c)"
    by (simp only: hex_digits_value)
  then show ?thesis
    unfolding hex4_def h1 h2 h3 h4 by simp
qed

lemma parse_chars_unicode_escape:
  "parse_chars (unicode_escape c @ rest) = cons_unit c (parse_chars rest)"
  using hex4_unicode_escape [of c] by (simp add: unicode_escape_def)


lemma parse_chars_closing: "parse_chars (0x22 # rest) = Some ([], rest)"
  by simp

lemma parse_chars_plain:
  "c \<noteq> 0x22 \<Longrightarrow> c \<noteq> 0x5C \<Longrightarrow> \<not> c < 0x20 \<Longrightarrow>
     parse_chars (c # rest) = cons_unit c (parse_chars rest)"
  by simp

lemma surrogate_plain:
  "is_lead_surrogate c \<or> is_trail_surrogate c \<Longrightarrow> c \<noteq> 0x22 \<and> c \<noteq> 0x5C \<and> \<not> c < 0x20"
  by (auto simp: is_lead_surrogate_def is_trail_surrogate_def word_le_nat_alt word_less_nat_alt)

lemma parse_chars_quote_unit:
  "parse_chars (quote_unit c @ rest) = cons_unit c (parse_chars rest)"
  by (simp add: quote_unit_def unescape_def parse_chars_unicode_escape)

lemma parse_chars_quote_units:
  "parse_chars (quote_units s @ 0x22 # rest) = Some (s, rest)"
proof (induction s rule: quote_units.induct)
  case 1
  show ?case by simp
next
  case (2 c cs)
  show ?case
  proof (cases "is_lead_surrogate c")
    case lead: True
    then have pc: "c \<noteq> 0x22" "c \<noteq> 0x5C" "\<not> c < 0x20" using surrogate_plain [of c] by simp_all
    show ?thesis
    proof (cases cs)
      case Nil
      with lead show ?thesis
        by (simp add: parse_chars_unicode_escape parse_chars_closing cons_unit_def
            del: parse_chars.simps)
    next
      case (Cons d ds)
      show ?thesis
      proof (cases "is_trail_surrogate d")
        case True
        then have pd: "d \<noteq> 0x22" "d \<noteq> 0x5C" "\<not> d < 0x20" using surrogate_plain [of d] by simp_all
        from 2(1) [OF lead Cons True]
        have "parse_chars (quote_units ds @ 0x22 # rest) = Some (ds, rest)" .
        with lead Cons True show ?thesis
          by (simp add: parse_chars_plain [OF pc] parse_chars_plain [OF pd] cons_unit_def
              del: parse_chars.simps)
      next
        case False
        from 2(2) [OF lead Cons False]
        have "parse_chars (quote_units cs @ 0x22 # rest) = Some (cs, rest)" .
        with lead Cons False show ?thesis
          by (simp add: parse_chars_unicode_escape cons_unit_def del: parse_chars.simps)
      qed
    qed
  next
    case False
    from 2(3) [OF False]
    have "parse_chars (quote_units cs @ 0x22 # rest) = Some (cs, rest)" .
    with False show ?thesis
      by (simp add: parse_chars_quote_unit cons_unit_def del: parse_chars.simps)
  qed
qed


section \<open>Writing and reading back the history\<close>

lemma skip_ws_quote [simp]: "skip_ws (0x22 # cs) = 0x22 # cs"
  by (simp add: skip_ws_def is_json_ws_def)

lemma skip_ws_comma [simp]: "skip_ws (0x2C # cs) = 0x2C # cs"
  by (simp add: skip_ws_def is_json_ws_def)

lemma skip_ws_brackets [simp]: "skip_ws (0x5B # cs) = 0x5B # cs" "skip_ws (0x5D # cs) = 0x5D # cs"
  by (simp_all add: skip_ws_def is_json_ws_def)

lemma skip_ws_Nil [simp]: "skip_ws [] = []"
  by (simp add: skip_ws_def)

lemma parse_value_quoted:
  "parse_value (Suc n) (QuoteJSONString s @ rest) = Accept (JStr s) rest"
  by (simp add: QuoteJSONString_def parse_chars_quote_units del: parse_chars.simps)

lemma skip_ws_quoted [simp]: "skip_ws (QuoteJSONString x @ cs) = QuoteJSONString x @ cs"
  by (simp add: QuoteJSONString_def)

lemma parse_elements_quoted:
  "length xs < n \<Longrightarrow>
     parse_elements (Suc n) (join_comma (map QuoteJSONString (x # xs)) @ 0x5D # rest)
       = Accept (map JStr (x # xs)) rest"
proof (induction xs arbitrary: x n)
  case Nil
  then obtain m where n: "n = Suc m" by (cases n) simp_all
  show ?case
    by (simp add: n parse_value_quoted del: parse_value.simps)
next
  case (Cons y ys)
  then obtain m where n: "n = Suc m" and m: "length ys < m" by (cases n) simp_all
  have "parse_elements (Suc m) (join_comma (map QuoteJSONString (y # ys)) @ 0x5D # rest)
      = Accept (map JStr (y # ys)) rest"
    using m by (rule Cons.IH)
  then show ?case
    by (simp add: n parse_value_quoted del: parse_value.simps)
qed

lemma parse_value_stringify:
  "length xs < n \<Longrightarrow>
     parse_value (Suc (Suc n)) (JSON_stringify xs @ rest) = Accept (JArr (map JStr xs)) rest"
proof (cases xs)
  case Nil
  then show ?thesis by (simp add: JSON_stringify_def)
next
  case (Cons y ys)
  assume "length xs < n"
  with Cons have "parse_elements (Suc n) (join_comma (map QuoteJSONString (y # ys)) @ 0x5D # rest)
      = Accept (map JStr (y # ys)) rest"
    by (intro parse_elements_quoted) simp
  moreover have "skip_ws (join_comma (map QuoteJSONString (y # ys)) @ 0x5D # rest)
      = 0x22 # tl (join_comma (map QuoteJSONString (y # ys)) @ 0x5D # rest)"
    by (cases ys) (simp_all add: QuoteJSONString_def)
  ultimately show ?thesis
    unfolding Cons JSON_stringify_def
    by (simp del: parse_elements.simps join_comma.simps)
qed

lemma length_join_comma: "length xs \<le> length (join_comma (map QuoteJSONString xs))"
  by (induction xs rule: join_comma.induct) (simp_all add: QuoteJSONString_def)

lemma JSON_parse_stringify: "JSON_parse (JSON_stringify xs) = Inr (JArr (map JStr xs))"
proof -
  have "length xs \<le> length (join_comma (map QuoteJSONString xs))" by (rule length_join_comma)
  then have "length xs < 2 * length (JSON_stringify xs)"
    by (simp add: JSON_stringify_def)
  then have "parse_value (Suc (Suc (2 * length (JSON_stringify xs)))) (JSON_stringify xs @ [])
      = Accept (JArr (map JStr xs)) []"
    by (rule parse_value_stringify)
  moreover have "skip_ws (JSON_stringify xs) = JSON_stringify xs"
    by (simp add: JSON_stringify_def)
  moreover have "2 * length (JSON_stringify xs) + 2 = Suc (Suc (2 * length (JSON_stringify xs)))"
    by simp
  ultimately show ?thesis
    by (simp add: JSON_parse_def del: parse_value.simps)
qed

text \<open>
  C8: the history that \<^verbatim>\<open>addToSearchHistory\<close> stores under the key
  \<^verbatim>\<open>dictionaryHistory\<close> is read back by the script's first statement as the array of
  the same strings in the same order, for a history of any length.
\<close>

theorem persist_then_load:
  "load (localStorage (persist s)) = Inr (JArr (map JStr (searchHistory s)))
   \<and> load (localStorage (addToSearchHistory w s))
       = Inr (JArr (map JStr (searchHistory (addToSearchHistory w s))))"
proof -
  have a: "load (localStorage (persist s)) = Inr (JArr (map JStr (searchHistory s)))" for s
    by (simp add: load_def persist_def JSON_parse_stringify)
  have "localStorage (addToSearchHistory w s)
      = localStorage (persist (s\<lparr>searchHistory := searchHistory (addToSearchHistory w s)\<rparr>))"
    by (simp add: addToSearchHistory_def Let_def displaySearchHistory_def persist_def)
  then have "load (localStorage (addToSearchHistory w s))
       = Inr (JArr (map JStr (searchHistory (addToSearchHistory w s))))"
    by (simp only: a) simp
  with a show ?thesis by simp
qed

section \<open>Starting the page\<close>

lemma parse_null: "JSON_parse (js ''null'') = Inr JNull"
  by code_simp

text \<open>
  Counterexamples to C1 as stated: a stored text that is not JSON makes the script's
  first statement throw a SyntaxError, and a stored text that is JSON but not an array
  of strings gives the value it denotes, not the empty sequence.
\<close>

theorem load_malformed_counterexample:
  "parse_value (2 * length (js ''{'') + 2) (skip_ws (js ''{'')) = Reject
   \<and> load (Map.empty(history_key \<mapsto> js ''{'')) = Inl SyntaxError
   \<and> load (Map.empty(history_key \<mapsto> js ''{}'')) = Inr (JObj [])
   \<and> load (Map.empty(history_key \<mapsto> js ''[1]'')) = Inr (JArr [JNum 1 0])"
  by code_simp

text \<open>
  C1, amended: when nothing is stored under the key \<^verbatim>\<open>dictionaryHistory\<close>, the script's
  first statement gives the empty array without throwing, and \<^verbatim>\<open>initApp\<close> shows that
  there are no recent searches.
\<close>

theorem load_absent:
  "storage history_key = None \<Longrightarrow>
     load storage = Inr (JArr [])
     \<and> historyList (initApp (s\<lparr>searchHistory := [], localStorage := storage\<rparr>)) = NoHistory"
  by (simp add: load_def parse_null initApp_def displaySearchHistory_def)

text \<open>Witness for C1: the empty storage.\<close>

theorem load_absent_witness:
  "Map.empty history_key = (None :: jsstring option)
   \<and> load Map.empty = Inr (JArr [])
   \<and> historyList (initApp (app0\<lparr>searchHistory := [], localStorage := Map.empty\<rparr>)) = NoHistory"
  using load_absent [of Map.empty app0] by simp

end
